theory Spec2Isabelle
  imports Complex_Main "HOL-Library.Multiset"
begin

section \<open>Data model\<close>

text \<open>
  A filesystem path is kept as the list of its components: \<open>join(dir, entry)\<close> appends
  one component, \<open>basename\<close> and \<open>extname\<close> of a path look at its last component.
\<close>

type_synonym path = "string list"

definition join :: "path \<Rightarrow> string \<Rightarrow> path" where
  "join dir entry = dir @ [entry]"

text \<open>
  The objects pushed by \<open>RomScanner\<close>. The field \<open>zipEntry\<close> is absent on entries that
  come from a plain file.
\<close>

record rom =
  name :: string
  path :: path
  zipEntry :: "string option"
  ext :: string
  system :: string

section \<open>Preferences\<close>

text \<open>
  The keys of the configuration object that the launcher reads. \<open>maxRecent\<close> and
  \<open>contrast\<close> come from a JSON file, so they are numbers and not only the values
  the settings dialog can produce.
\<close>

record config =
  recentGames :: "path list"
  maxRecent :: int
  symbols :: string
  colors :: string
  fgOnly :: bool
  dither :: bool
  contrast :: rat

definition DEFAULTS :: config where
  "DEFAULTS = \<lparr> recentGames = [], maxRecent = 10, symbols = ''ascii+block'',
      colors = ''256'', fgOnly = True, dither = False, contrast = 5 \<rparr>"

text \<open>
  \<open>Array.prototype.slice(0, end)\<close>: a negative \<open>end\<close> counts from the end of the
  array, and the result is empty when that falls before the start.
\<close>

definition slice0 :: "int \<Rightarrow> 'a list \<Rightarrow> 'a list" where
  "slice0 end xs =
     (if end < 0 then take (nat (int (length xs) + end)) xs else take (nat end) xs)"

text \<open>
  \<open>addRecentGame(romPath)\<close>: filter the path out, \<open>unshift\<close> it, keep
  \<open>slice(0, maxRecent)\<close>.
\<close>

definition addRecentGame :: "path \<Rightarrow> config \<Rightarrow> config" where
  "addRecentGame romPath c =
     (let recent = filter (\<lambda>p. p \<noteq> romPath) (recentGames c);
          recent = romPath # recent
      in c\<lparr> recentGames := slice0 (maxRecent c) recent \<rparr>)"

section \<open>Selection\<close>

text \<open>
  The part of the launcher that decides the highlighted row: \<open>romList.selected\<close> and
  \<open>sortedRoms\<close> (which is \<open>null\<close> until a view has been shown). \<open>romList.select(index)\<close>
  is only ever called here with an index the guard has let through, and is the assignment
  of that index.
\<close>

record selection =
  selected :: int
  sortedRoms :: "rom list option"

text \<open>
  \<open>_getSelectedRom(index)\<close>: \<open>null\<close> when there is no list, \<open>undefined\<close> when the index
  is outside the array; every caller only tests the result for truthiness, so both are
  \<open>None\<close>.
\<close>

definition getSelectedRom :: "selection \<Rightarrow> int \<Rightarrow> rom option" where
  "getSelectedRom s index =
     (case sortedRoms s of
        None \<Rightarrow> None
      | Some roms \<Rightarrow>
          if 0 \<le> index \<and> index < int (length roms) then Some (roms ! nat index) else None)"

definition navigateUp :: "selection \<Rightarrow> selection" where
  "navigateUp s =
     (let index = selected s - 1
      in if index \<ge> 0 then s\<lparr> selected := index \<rparr> else s)"

definition navigateDown :: "selection \<Rightarrow> selection" where
  "navigateDown s =
     (let index = selected s + 1;
          max = (case sortedRoms s of Some roms \<Rightarrow> int (length roms) | None \<Rightarrow> 0)
      in if index < max then s\<lparr> selected := index \<rparr> else s)"

text \<open>
  The movements the input handler dispatches: one step for the pad and the stick, ten
  steps in a row for the shoulder buttons.
\<close>

datatype move = Up | Down | PageUp | PageDown

fun applyMove :: "move \<Rightarrow> selection \<Rightarrow> selection" where
  "applyMove Up s = navigateUp s"
| "applyMove Down s = navigateDown s"
| "applyMove PageUp s = (navigateUp ^^ 10) s"
| "applyMove PageDown s = (navigateDown ^^ 10) s"

definition applyMoves :: "move list \<Rightarrow> selection \<Rightarrow> selection" where
  "applyMoves ms s = fold applyMove ms s"

text \<open>The length of the active list, zero while there is none.\<close>

definition listLength :: "selection \<Rightarrow> int" where
  "listLength s = (case sortedRoms s of Some roms \<Rightarrow> int (length roms) | None \<Rightarrow> 0)"

text \<open>
  The highlight is a valid row of the active list, or row zero of an empty one.
\<close>

definition highlightOk :: "selection \<Rightarrow> bool" where
  "highlightOk s =
     (if listLength s = 0 then selected s = 0
      else 0 \<le> selected s \<and> selected s \<le> listLength s - 1)"

section \<open>Recent view\<close>

text \<open>
  \<open>_showRecentRoms\<close>: each stored path is looked up with \<open>Array.prototype.find\<close> on
  the flat catalog, and the paths that are not found (\<open>undefined\<close>) are filtered out.
\<close>

definition showRecentRoms :: "rom list \<Rightarrow> path list \<Rightarrow> rom list" where
  "showRecentRoms roms recent =
     map the (filter (\<lambda>r. r \<noteq> None) (map (\<lambda>p. find (\<lambda>r. path r = p) roms) recent))"

text \<open>What a launch leaves in the recent list: \<open>_launchGame\<close> stores \<open>rom.path\<close>.\<close>

definition recordLaunch :: "rom \<Rightarrow> config \<Rightarrow> config" where
  "recordLaunch r c = addRecentGame (path r) c"

section \<open>Launching\<close>

text \<open>
  The decimal digits of a natural number, for \<open>Number.prototype.toFixed\<close>.
\<close>

definition digitChar :: "nat \<Rightarrow> char" where
  "digitChar d = ''0123456789'' ! d"

fun showNat :: "nat \<Rightarrow> string" where
  "showNat n = (if n < 10 then [digitChar n] else showNat (n div 10) @ [digitChar (n mod 10)])"

declare showNat.simps [simp del]

text \<open>
  \<open>x.toFixed(2)\<close>: the sign, then the integer \<open>n\<close> for which \<open>n / 100\<close> is nearest to
  the magnitude (the larger one on a tie), written with two digits after the point.
\<close>

definition toFixed2 :: "rat \<Rightarrow> string" where
  "toFixed2 x =
     (let n = nat \<lfloor>\<bar>x\<bar> * 100 + 1 / 2\<rfloor>
      in (if x < 0 then ''-'' else []) @
         showNat (n div 100) @ ''.'' @ [digitChar (n mod 100 div 10), digitChar (n mod 10)])"

text \<open>The path handed to the emulator, written with separators.\<close>

definition pathStr :: "path \<Rightarrow> string" where
  "pathStr p = concat (map (\<lambda>c. ''/'' @ c) p)"

text \<open>
  The slider to contrast conversion of \<open>_launchGame\<close>, over exact rationals:
  \<open>prefs.get('contrast') || 5\<close>, then \<open>0.5 + (contrastSlider - 1) * (1.5 / 9)\<close>.
  The source computes in binary floating point, whose rounding moves a result by less
  than one part in \<open>10\<^sup>1\<^sup>5\<close>.
\<close>

definition contrastSlider :: "config \<Rightarrow> rat" where
  "contrastSlider c = (if contrast c = 0 then 5 else contrast c)"

definition contrastValue :: "config \<Rightarrow> rat" where
  "contrastValue c = 1 / 2 + (contrastSlider c - 1) * ((3 / 2) / 9)"

text \<open>The argument list \<open>_launchGame\<close> builds after the emulator's own script path.\<close>

definition launchArgs :: "config \<Rightarrow> rom \<Rightarrow> string list" where
  "launchArgs c r =
     [pathStr (path r)] @
     [''--symbols'', symbols c] @
     [''--colors'', colors c] @
     (if fgOnly c then [''--fg-only''] else []) @
     (if dither c then [''--dither''] else []) @
     (if contrastValue c \<noteq> 1 then [''--contrast'', toFixed2 (contrastValue c)] else [])"

section \<open>Controller polling\<close>

text \<open>
  One polled device: the \<open>pressed\<close> flag of each button object (\<open>None\<close> for an entry
  that is \<open>null\<close> or \<open>undefined\<close>, which \<open>b?.pressed\<close> reads as not pressed) and the
  axis values.
\<close>

record gamepad =
  buttons :: "bool option list"
  axes :: "rat list"

text \<open>\<open>buttons[idx]?.pressed\<close>, as a truth value.\<close>

definition isPressed :: "bool option list \<Rightarrow> nat \<Rightarrow> bool" where
  "isPressed btns idx = (idx < length btns \<and> btns ! idx = Some True)"

text \<open>\<open>gp.axes[i] || 0\<close>.\<close>

definition axisAt :: "rat list \<Rightarrow> nat \<Rightarrow> rat" where
  "axisAt ax i = (if i < length ax then ax ! i else 0)"

text \<open>\<open>gp.buttons.some(b => b?.pressed)\<close>.\<close>

definition anyPressed :: "gamepad \<Rightarrow> bool" where
  "anyPressed gp = list_ex (\<lambda>b. b = Some True) (buttons gp)"

text \<open>
  What \<open>_startControllerPolling\<close> sets up and the timer callback keeps between ticks.
\<close>

record pollState =
  prevButtons :: "nat \<Rightarrow> bool"
  holdTime :: "string \<Rightarrow> int option"
  waitingForRelease :: bool

definition startControllerPolling :: pollState where
  "startControllerPolling =
     \<lparr> prevButtons = (\<lambda>_. False), holdTime = (\<lambda>_. None), waitingForRelease = True \<rparr>"

text \<open>
  The handler calls that a tick makes. A launch is the block that reads the selected rom
  and calls \<open>_launchGame\<close> when there is one; a shoulder button makes ten navigation
  calls.
\<close>

datatype command =
    NavigateUp | NavigateDown | NavigatePrevSystem | NavigateNextSystem
  | LaunchSelected | ShowRecentRoms | ShowSettings
  | CloseForm | SaveAndClose | FocusPrevField | FocusNextField
  | HandleLeftRight int | HandleToggle

text \<open>
  The helper \<open>pressed(idx)\<close>: it records the current state and reports a rising edge.
\<close>

definition pressed :: "bool option list \<Rightarrow> nat \<Rightarrow> pollState \<Rightarrow> bool \<times> pollState" where
  "pressed btns idx s =
     (let isP = isPressed btns idx;
          wasPressed = prevButtons s idx
      in (isP \<and> \<not> wasPressed, s\<lparr> prevButtons := (prevButtons s)(idx := isP) \<rparr>))"

text \<open>The remainder operator of the source takes the sign of the dividend.\<close>

definition jsRem :: "int \<Rightarrow> int \<Rightarrow> int" where
  "jsRem a b = sgn a * (\<bar>a\<bar> mod \<bar>b\<bar>)"

text \<open>
  The helper \<open>heldWithRepeat(key, isActive)\<close>. \<open>!hold[key]\<close> holds for a missing key
  and for a stored zero.
\<close>

definition heldWithRepeat :: "int \<Rightarrow> string \<Rightarrow> bool \<Rightarrow> pollState \<Rightarrow> bool \<times> pollState" where
  "heldWithRepeat now key isActive s =
     (if isActive then
        (if holdTime s key = None \<or> holdTime s key = Some 0
         then (True, s\<lparr> holdTime := (holdTime s)(key \<mapsto> now) \<rparr>)
         else
           let elapsed = now - the (holdTime s key)
           in if elapsed > 300 then
                let repeatElapsed = jsRem (elapsed - 300) 80;
                    prevRepeatElapsed = jsRem (elapsed - 300 - 16) 80
                in (repeatElapsed < prevRepeatElapsed \<or> elapsed - 300 < 16, s)
              else (False, s))
      else (False, s\<lparr> holdTime := (holdTime s)(key := None) \<rparr>))"

text \<open>The branch of \<open>_handleGamepadInput\<close> taken while the settings dialog is open.\<close>

definition handleSettingsInput :: "bool option list \<Rightarrow> pollState \<Rightarrow> command list \<times> pollState" where
  "handleSettingsInput btns s =
     (let (b1, s) = pressed btns 1 s in
      if b1 then ([CloseForm], s) else
      let (b0, s) = pressed btns 0 s in
      if b0 then ([SaveAndClose], s) else
      let (b9, s) = pressed btns 9 s in
      if b9 then ([SaveAndClose], s) else
      let (b12, s) = pressed btns 12 s in
      if b12 then ([FocusPrevField], s) else
      let (b13, s) = pressed btns 13 s in
      if b13 then ([FocusNextField], s) else
      let (b14, s) = pressed btns 14 s in
      if b14 then ([HandleLeftRight (- 1)], s) else
      let (b15, s) = pressed btns 15 s in
      if b15 then ([HandleLeftRight 1], s) else
      let (b2, s) = pressed btns 2 s in
      if b2 then ([HandleToggle], s) else ([], s))"

text \<open>The rest of \<open>_handleGamepadInput\<close>: navigation with repeat, then the edge buttons.\<close>

definition handleBrowseInput :: "int \<Rightarrow> gamepad \<Rightarrow> pollState \<Rightarrow> command list \<times> pollState" where
  "handleBrowseInput now gp s =
     (let btns = buttons gp;
          leftStickY = axisAt (axes gp) 1;
          leftStickX = axisAt (axes gp) 0;
          upActive = (isPressed btns 12 \<or> leftStickY < - (1 / 2));
          downActive = (isPressed btns 13 \<or> leftStickY > 1 / 2);
          leftActive = (isPressed btns 14 \<or> leftStickX < - (1 / 2));
          rightActive = (isPressed btns 15 \<or> leftStickX > 1 / 2);
          (up, s) = heldWithRepeat now ''up'' upActive s;
          (down, s) = heldWithRepeat now ''down'' downActive s;
          (left, s) = heldWithRepeat now ''left'' leftActive s;
          (right, s) = heldWithRepeat now ''right'' rightActive s;
          (lb, s) = heldWithRepeat now ''lb'' (isPressed btns 4) s;
          (rb, s) = heldWithRepeat now ''rb'' (isPressed btns 5) s;
          (b0, s) = pressed btns 0 s;
          (b2, s) = pressed btns 2 s;
          (b3, s) = pressed btns 3 s;
          (b9, s) = pressed btns 9 s
      in ((if up then [NavigateUp] else []) @
          (if down then [NavigateDown] else []) @
          (if left then [NavigatePrevSystem] else []) @
          (if right then [NavigateNextSystem] else []) @
          (if lb then replicate 10 NavigateUp else []) @
          (if rb then replicate 10 NavigateDown else []) @
          (if b0 then [LaunchSelected] else []) @
          (if b2 then [ShowRecentRoms] else []) @
          (if b3 then [ShowSettings] else []) @
          (if b9 then [LaunchSelected] else []), s))"

text \<open>
  \<open>_handleGamepadInput(gamepads)\<close>; \<open>dialog\<close> is
  \<open>this._settingsOpen && this._settingsState\<close> as the tick finds it.
\<close>

definition handleGamepadInput ::
  "bool \<Rightarrow> int \<Rightarrow> gamepad list \<Rightarrow> pollState \<Rightarrow> command list \<times> pollState" where
  "handleGamepadInput dialog now gamepads s =
     (if gamepads = [] then ([], s)
      else if dialog then handleSettingsInput (buttons (hd gamepads)) s
      else handleBrowseInput now (hd gamepads) s)"

text \<open>
  What one run of the timer callback sees: the dialog flag, \<open>Date.now()\<close> and the array
  \<open>navigator.getGamepads()\<close> returns, with \<open>null\<close> for an empty slot.
\<close>

record tick =
  dialogOpen :: bool
  clock :: int
  slots :: "gamepad option list"

definition connected :: "tick \<Rightarrow> gamepad list" where
  "connected t = map the (filter (\<lambda>g. g \<noteq> None) (slots t))"

text \<open>The timer callback of \<open>_startControllerPolling\<close>.\<close>

definition pollTick :: "tick \<Rightarrow> pollState \<Rightarrow> command list \<times> pollState" where
  "pollTick t s =
     (let gamepads = connected t
      in if waitingForRelease s \<and> gamepads \<noteq> [] then
           (if \<not> anyPressed (hd gamepads)
            then ([], s\<lparr> waitingForRelease := False \<rparr>)
            else ([], s))
         else handleGamepadInput (dialogOpen t) (clock t) gamepads s)"

text \<open>The calls made by each of a sequence of ticks, from a given polling state.\<close>

fun runTicks :: "tick list \<Rightarrow> pollState \<Rightarrow> command list list" where
  "runTicks [] s = []"
| "runTicks (t # ts) s = fst (pollTick t s) # runTicks ts (snd (pollTick t s))"

text \<open>A tick that shows a device with every button released.\<close>

definition allReleased :: "tick \<Rightarrow> bool" where
  "allReleased t = (connected t \<noteq> [] \<and> \<not> anyPressed (hd (connected t)))"

section \<open>Names and extensions\<close>

text \<open>
  The functions of the platform's \<open>path\<close> and \<open>String\<close> modules that the scanner
  calls, after their documentation. A character of a string here stands for one UTF-16
  code unit of the source's string, the one with the same number, so that \<open>length\<close> is
  the source's \<open>.length\<close>; the strings covered are those whose code units are below
  256. On these, \<open>toLowerCase\<close> changes the letters \<open>A\<close> to \<open>Z\<close> and the code units
  192 to 222 other than 215 (the capital letters with diacritics), each to the code unit
  32 above it.
\<close>

definition lowerChar :: "char \<Rightarrow> char" where
  "lowerChar c =
     (let n = (of_char c :: nat)
      in if (65 \<le> n \<and> n \<le> 90) \<or> (192 \<le> n \<and> n \<le> 222 \<and> n \<noteq> 215)
         then char_of (n + 32) else c)"

definition toLowerCase :: "string \<Rightarrow> string" where
  "toLowerCase s = map lowerChar s"

definition startsWith :: "string \<Rightarrow> string \<Rightarrow> bool" where
  "startsWith s pre = (take (length pre) s = pre)"

text \<open>The last portion of a path string: trailing separators are ignored.\<close>

definition lastPart :: "string \<Rightarrow> string" where
  "lastPart p =
     rev (takeWhile (\<lambda>c. c \<noteq> CHR ''/'') (dropWhile (\<lambda>c. c = CHR ''/'') (rev p)))"

text \<open>
  \<open>extname(p)\<close>: from the last dot of the last portion to its end; empty when there is
  no dot, when the only dot is the first character, and for the portion \<open>..\<close>.
\<close>

definition extname :: "string \<Rightarrow> string" where
  "extname p =
     (let b = lastPart p;
          e = rev (takeWhile (\<lambda>c. c \<noteq> CHR ''.'') (rev b));
          stem = take (length b - length e - 1) b
      in if CHR ''.'' \<notin> set b \<or> stem = [] \<or> b = ''..'' then [] else CHR ''.'' # e)"

text \<open>
  \<open>basename(p, suffix)\<close>: the last portion, without the suffix when the portion ends
  with it (compared character by character, so case matters) and is longer than it.
\<close>

definition basename :: "string \<Rightarrow> string \<Rightarrow> string" where
  "basename p suffix =
     (let b = lastPart p
      in if suffix \<noteq> [] \<and> suffix = p then []
         else if suffix \<noteq> [] \<and> length suffix < length b \<and>
                 drop (length b - length suffix) b = suffix
         then take (length b - length suffix) b
         else b)"

text \<open>The test \<open>/^\d+$/\<close>.\<close>

definition isDigits :: "string \<Rightarrow> bool" where
  "isDigits s = (s \<noteq> [] \<and> list_all (\<lambda>c. List.member ''0123456789'' c) s)"

section \<open>The extension tables\<close>

definition ROM_EXTENSIONS :: "string list" where
  "ROM_EXTENSIONS =
     [''.nes'', ''.fds'', ''.unf'', ''.unif'',
      ''.sfc'', ''.smc'',
      ''.gb'', ''.gbc'', ''.gba'',
      ''.md'', ''.gen'', ''.smd'', ''.bin'',
      ''.sms'', ''.gg'', ''.sg'',
      ''.a26'', ''.a52'', ''.a78'',
      ''.xex'', ''.atr'', ''.atx'', ''.bas'', ''.car'', ''.xfd'',
      ''.lnx'', ''.o'',
      ''.pce'', ''.cue'', ''.ccd'', ''.chd'',
      ''.ngp'', ''.ngc'',
      ''.ws'', ''.wsc'',
      ''.col'',
      ''.vec'',
      ''.tzx'', ''.z80'', ''.sna'',
      ''.mx1'', ''.mx2'', ''.rom'', ''.dsk'', ''.cas'',
      ''.iso'', ''.pbp'', ''.m3u'']"

definition SYSTEM_NAMES :: "(string \<times> string) list" where
  "SYSTEM_NAMES =
     [(''.nes'', ''NES''), (''.fds'', ''NES''), (''.unf'', ''NES''), (''.unif'', ''NES''),
      (''.sfc'', ''SNES''), (''.smc'', ''SNES''),
      (''.gb'', ''Game Boy''), (''.gbc'', ''Game Boy Color''), (''.gba'', ''Game Boy Advance''),
      (''.md'', ''Genesis''), (''.gen'', ''Genesis''), (''.smd'', ''Genesis''),
      (''.bin'', ''Genesis''),
      (''.sms'', ''Master System''), (''.gg'', ''Game Gear''), (''.sg'', ''SG-1000''),
      (''.a26'', ''Atari 2600''), (''.a52'', ''Atari 5200''), (''.a78'', ''Atari 7800''),
      (''.xex'', ''Atari 800''), (''.atr'', ''Atari 800''), (''.atx'', ''Atari 800''),
      (''.bas'', ''Atari 800''), (''.car'', ''Atari 800''), (''.xfd'', ''Atari 800''),
      (''.lnx'', ''Lynx''), (''.o'', ''Lynx''),
      (''.pce'', ''PC Engine''), (''.cue'', ''PC Engine''), (''.ccd'', ''PC Engine''),
      (''.chd'', ''PC Engine''),
      (''.ngp'', ''Neo Geo Pocket''), (''.ngc'', ''Neo Geo Pocket Color''),
      (''.ws'', ''WonderSwan''), (''.wsc'', ''WonderSwan Color''),
      (''.col'', ''ColecoVision''),
      (''.vec'', ''Vectrex''),
      (''.tzx'', ''ZX Spectrum''), (''.z80'', ''ZX Spectrum''), (''.sna'', ''ZX Spectrum''),
      (''.mx1'', ''MSX''), (''.mx2'', ''MSX''), (''.rom'', ''MSX''), (''.dsk'', ''MSX''),
      (''.cas'', ''MSX''),
      (''.iso'', ''PlayStation''), (''.pbp'', ''PlayStation''), (''.m3u'', ''PlayStation''),
      (''.zip'', ''Archive'')]"

text \<open>\<open>ROM_EXTENSIONS.has(ext)\<close> and \<open>SYSTEM_NAMES[ext] || 'Unknown'\<close>.\<close>

definition isRomExt :: "string \<Rightarrow> bool" where
  "isRomExt e = List.member ROM_EXTENSIONS e"

definition systemName :: "string \<Rightarrow> string" where
  "systemName e = (case map_of SYSTEM_NAMES e of Some s \<Rightarrow> s | None \<Rightarrow> ''Unknown'')"

section \<open>The scanned tree\<close>

text \<open>
  What the archive reader does with a file it is asked to open: it reports an error
  through the callback of \<open>open\<close>; or it emits an \<open>entry\<close> event for each member, in
  order, and then \<open>end\<close>; or it emits some \<open>entry\<close> events and then an \<open>error\<close> event
  (a damaged central directory, a member name it refuses).
\<close>

datatype archive = OpenFails | Listing "string list" | ListingFails "string list"

text \<open>
  What the scan finds at a directory entry: a directory that \<open>readdirSync\<close> can list, a
  directory it cannot, a regular file (with what the archive reader would make of it),
  something \<open>statSync\<close> reports as neither file nor directory, or something
  \<open>statSync\<close> fails on. A directory's names are those \<open>readdirSync\<close> returns, in its
  order.
\<close>

datatype fsnode =
    Directory "(string \<times> fsnode) list"
  | Unreadable
  | RegularFile archive
  | Special
  | NoStat

text \<open>
  How a call ends: it returns; it throws, which a \<open>catch\<close> around it takes; or an
  \<open>error\<close> event goes without a listener, which no \<open>catch\<close> of the scan sees and after
  which the promise the scan awaits is never settled.
\<close>

datatype completion = Normal | Thrown | Unhandled

datatype statKind = IsDirectory | IsFile | IsOther

definition statSync :: "fsnode \<Rightarrow> statKind option" where
  "statSync n =
     (case n of
        Directory _ \<Rightarrow> Some IsDirectory
      | Unreadable \<Rightarrow> Some IsDirectory
      | RegularFile _ \<Rightarrow> Some IsFile
      | Special \<Rightarrow> Some IsOther
      | NoStat \<Rightarrow> None)"

definition archiveOf :: "fsnode \<Rightarrow> archive" where
  "archiveOf n = (case n of RegularFile a \<Rightarrow> a | _ \<Rightarrow> OpenFails)"

section \<open>RomScanner\<close>

text \<open>
  The listener \<open>_scanZip\<close> registers for \<open>entry\<close>: the entries it pushes for one
  member. \<open>romName.length\<close> counts code units, as \<open>length\<close> does here.
\<close>

definition onEntry :: "path \<Rightarrow> string \<Rightarrow> string \<Rightarrow> rom list" where
  "onEntry zipPath zipName fileName =
     (let e = toLowerCase (extname fileName)
      in if isRomExt e \<and> \<not> startsWith fileName ''__MACOSX'' then
           let romName = basename fileName e;
               romName = (if isDigits romName \<or> length romName < 3 then zipName else romName)
           in [\<lparr> name = romName, path = zipPath, zipEntry = Some fileName, ext = e,
                 system = systemName e \<rparr>]
         else [])"

text \<open>
  \<open>_scanZip(zipPath)\<close>, with its local array. A failed \<open>open\<close> rejects the first
  promise, and the \<open>catch\<close> returns the empty array. The second promise is resolved by
  \<open>end\<close> only, and no listener is registered for \<open>error\<close>.
\<close>

definition scanZip :: "path \<Rightarrow> archive \<Rightarrow> completion \<times> rom list" where
  "scanZip zipPath a =
     (let zipName = basename (last zipPath) (extname (last zipPath))
      in case a of
           OpenFails \<Rightarrow> (Normal, [])
         | Listing members \<Rightarrow> (Normal, concat (map (onEntry zipPath zipName) members))
         | ListingFails members \<Rightarrow>
             (Unhandled, concat (map (onEntry zipPath zipName) members)))"

text \<open>
  The calls below are given with how they end and with the entries they have pushed onto
  the shared array \<open>roms\<close>, in order; the array is only ever appended to.
\<close>

text \<open>The branch of \<open>_scanDir\<close> for an entry that \<open>stat.isFile()\<close> accepts.\<close>

definition scanFile :: "string \<Rightarrow> path \<Rightarrow> fsnode \<Rightarrow> completion \<times> rom list" where
  "scanFile entry fullPath child =
     (let e = toLowerCase (extname entry)
      in if e = ''.zip'' then
           (case scanZip fullPath (archiveOf child) of
              (Normal, zipRoms) \<Rightarrow> (Normal, zipRoms)
            | (c, _) \<Rightarrow> (c, []))
         else if isRomExt e then
           (Normal, [\<lparr> name = basename entry e, path = fullPath, zipEntry = None,
                       ext = e, system = systemName e \<rparr>])
         else (Normal, []))"

text \<open>A \<open>try\<close> block whose \<open>catch\<close> is empty.\<close>

definition catching :: "completion \<times> rom list \<Rightarrow> completion \<times> rom list" where
  "catching res = (if fst res = Thrown then (Normal, snd res) else res)"

text \<open>
  One iteration of the loop followed by the remaining ones: they run unless the iteration
  ended in an event without a listener.
\<close>

definition thenRest ::
  "completion \<times> rom list \<Rightarrow> completion \<times> rom list \<Rightarrow> completion \<times> rom list" where
  "thenRest res rest =
     (if fst res = Unhandled then res else (fst rest, snd res @ snd rest))"

text \<open>
  \<open>_scanDir(dir, roms, depth)\<close>, the inner \<open>try\<close> block of its loop for one
  entry, and the loop over the entries of the directory. \<open>readdirSync\<close> throws on
  everything but a directory it can list, and the outer \<open>catch\<close> takes that, so such
  a call returns like one that is too deep. The inner \<open>try\<close> covers \<open>statSync\<close>
  and all that follows it for one entry; its \<open>catch\<close> is empty.
\<close>

function scanDir :: "path \<Rightarrow> fsnode \<Rightarrow> nat \<Rightarrow> completion \<times> rom list"
  and tryEntry :: "path \<Rightarrow> string \<Rightarrow> fsnode \<Rightarrow> nat \<Rightarrow> completion \<times> rom list"
  and scanEntries :: "path \<Rightarrow> (string \<times> fsnode) list \<Rightarrow> nat \<Rightarrow> completion \<times> rom list"
where
  "scanDir dir (Directory entries) depth =
     (if depth > 3 then (Normal, []) else catching (scanEntries dir entries depth))"
| "scanDir dir Unreadable depth = (Normal, [])"
| "scanDir dir (RegularFile a) depth = (Normal, [])"
| "scanDir dir Special depth = (Normal, [])"
| "scanDir dir NoStat depth = (Normal, [])"
| "tryEntry dir entry child depth =
     catching
       (if statSync child = None then (Thrown, [])
        else if statSync child = Some IsDirectory
          then scanDir (join dir entry) child (depth + 1)
        else if statSync child = Some IsFile
          then scanFile entry (join dir entry) child
        else (Normal, []))"
| "scanEntries dir [] depth = (Normal, [])"
| "scanEntries dir ((entry, child) # rest) depth =
     (if startsWith entry ''.'' then scanEntries dir rest depth
      else thenRest (tryEntry dir entry child depth) (scanEntries dir rest depth))"
  by pat_completeness auto
termination
  by (relation "measure (\<lambda>x. case x of
          Inl (_, node, _) \<Rightarrow> 2 * size node
        | Inr (Inl (_, _, child, _)) \<Rightarrow> 2 * size child + 1
        | Inr (Inr (_, entries, _)) \<Rightarrow> 2 * size_list (size_prod (\<lambda>_. 0) size) entries)")
     auto

declare tryEntry.simps [simp del]

text \<open>
  The comparison of \<open>scan\<close> sorts with \<open>localeCompare\<close>, which the platform provides: it
  is a parameter. The sort is stable.
\<close>

fun insertRom :: "(string \<Rightarrow> string \<Rightarrow> int) \<Rightarrow> rom \<Rightarrow> rom list \<Rightarrow> rom list" where
  "insertRom localeCompare x [] = [x]"
| "insertRom localeCompare x (y # ys) =
     (if localeCompare (name x) (name y) \<le> 0 then x # y # ys
      else y # insertRom localeCompare x ys)"

definition sortByName :: "(string \<Rightarrow> string \<Rightarrow> int) \<Rightarrow> rom list \<Rightarrow> rom list" where
  "sortByName localeCompare roms = foldr (insertRom localeCompare) roms []"

text \<open>\<open>scan()\<close> on the directory \<open>romsDir\<close>, whose content is \<open>tree\<close>.\<close>

definition scan :: "(string \<Rightarrow> string \<Rightarrow> int) \<Rightarrow> path \<Rightarrow> fsnode \<Rightarrow> completion \<times> rom list" where
  "scan localeCompare romsDir tree =
     (let res = scanDir romsDir tree 0
      in if fst res = Normal then (Normal, sortByName localeCompare (snd res)) else res)"

section \<open>Trees and the files in them\<close>

text \<open>The node at a relative path below a node, through directories that can be listed.\<close>

fun locate :: "fsnode \<Rightarrow> string list \<Rightarrow> fsnode option" where
  "locate n [] = Some n"
| "locate (Directory entries) (c # cs) =
     (case map_of entries c of Some child \<Rightarrow> locate child cs | None \<Rightarrow> None)"
| "locate _ (c # cs) = None"

text \<open>A directory lists each name once, at every level.\<close>

function wellNamed :: "fsnode \<Rightarrow> bool"
  and wellNamedEntries :: "(string \<times> fsnode) list \<Rightarrow> bool"
where
  "wellNamed (Directory entries) = (distinct (map fst entries) \<and> wellNamedEntries entries)"
| "wellNamed Unreadable = True"
| "wellNamed (RegularFile a) = True"
| "wellNamed Special = True"
| "wellNamed NoStat = True"
| "wellNamedEntries [] = True"
| "wellNamedEntries ((entry, child) # rest) = (wellNamed child \<and> wellNamedEntries rest)"
  by pat_completeness auto
termination
  by (relation "measure (\<lambda>x. case x of
          Inl node \<Rightarrow> size node
        | Inr entries \<Rightarrow> size_list (size_prod (\<lambda>_. 0) size) entries)")
     auto

text \<open>No archive of the tree ends its listing with an \<open>error\<close> event.\<close>

function listingsEnd :: "fsnode \<Rightarrow> bool"
  and listingsEndEntries :: "(string \<times> fsnode) list \<Rightarrow> bool"
where
  "listingsEnd (Directory entries) = listingsEndEntries entries"
| "listingsEnd Unreadable = True"
| "listingsEnd (RegularFile a) = (case a of ListingFails _ \<Rightarrow> False | _ \<Rightarrow> True)"
| "listingsEnd Special = True"
| "listingsEnd NoStat = True"
| "listingsEndEntries [] = True"
| "listingsEndEntries ((entry, child) # rest) = (listingsEnd child \<and> listingsEndEntries rest)"
  by pat_completeness auto
termination
  by (relation "measure (\<lambda>x. case x of
          Inl node \<Rightarrow> size node
        | Inr entries \<Rightarrow> size_list (size_prod (\<lambda>_. 0) size) entries)")
     auto

section \<open>Properties of the recent list\<close>

lemma slice0_nonneg: "0 \<le> m \<Longrightarrow> slice0 m xs = take (nat m) xs"
  by (simp add: slice0_def)

lemma recentGames_addRecentGame:
  "recentGames (addRecentGame p c) =
     slice0 (maxRecent c) (p # filter (\<lambda>q. q \<noteq> p) (recentGames c))"
  by (simp add: addRecentGame_def Let_def)

lemma length_filter_remove1:
  "distinct xs \<Longrightarrow> p \<in> set xs \<Longrightarrow> Suc (length (filter (\<lambda>q. q \<noteq> p) xs)) = length xs"
proof (induction xs)
  case Nil
  then show ?case by simp
next
  case (Cons x xs)
  show ?case
  proof (cases "x = p")
    case True
    with Cons.prems have "p \<notin> set xs" by simp
    then have "filter (\<lambda>q. q \<noteq> p) xs = xs" by (induction xs) auto
    with True show ?thesis by simp
  next
    case False
    with Cons show ?thesis by simp
  qed
qed

text \<open>
  C8. With a cap that is not negative, \<open>addRecentGame(p)\<close> leaves the list that starts
  with \<open>p\<close>, continues with the earlier entries without any occurrence of \<open>p\<close>, and is
  cut to \<open>maxRecent\<close> elements. On a recent list (no duplicates, within the cap) that
  already holds \<open>p\<close>, the result has no duplicates and the same length.
\<close>

theorem addRecentGame_spec:
  "0 \<le> maxRecent c \<Longrightarrow>
     recentGames (addRecentGame p c) =
       take (nat (maxRecent c)) (p # filter (\<lambda>q. q \<noteq> p) (recentGames c)) \<and>
     length (recentGames (addRecentGame p c)) \<le> nat (maxRecent c) \<and>
     (distinct (recentGames c) \<longrightarrow> distinct (recentGames (addRecentGame p c))) \<and>
     (distinct (recentGames c) \<and> p \<in> set (recentGames c) \<and>
        int (length (recentGames c)) \<le> maxRecent c \<longrightarrow>
        length (recentGames (addRecentGame p c)) = length (recentGames c) \<and>
        hd (recentGames (addRecentGame p c)) = p)"
proof -
  assume cap: "0 \<le> maxRecent c"
  let ?ys = "p # filter (\<lambda>q. q \<noteq> p) (recentGames c)"
  have eq: "recentGames (addRecentGame p c) = take (nat (maxRecent c)) ?ys"
    using cap by (simp add: recentGames_addRecentGame slice0_nonneg)
  have le: "length (recentGames (addRecentGame p c)) \<le> nat (maxRecent c)"
    unfolding eq by simp
  have dist: "distinct (recentGames (addRecentGame p c))" if "distinct (recentGames c)"
  proof -
    from that have "distinct ?ys" by simp
    then show ?thesis unfolding eq by (rule distinct_take)
  qed
  have same: "length (recentGames (addRecentGame p c)) = length (recentGames c) \<and>
        hd (recentGames (addRecentGame p c)) = p"
    if d: "distinct (recentGames c)" and m: "p \<in> set (recentGames c)"
      and l: "int (length (recentGames c)) \<le> maxRecent c"
  proof -
    have len: "length ?ys = length (recentGames c)"
      using length_filter_remove1 [OF d m] by simp
    with l have "length ?ys \<le> nat (maxRecent c)" by linarith
    then have t: "take (nat (maxRecent c)) ?ys = ?ys" by simp
    show ?thesis unfolding eq t using len by simp
  qed
  from eq le dist same show ?thesis by blast
qed

theorem addRecentGame_spec_witness:
  "0 \<le> maxRecent (DEFAULTS\<lparr> recentGames := [[''A''], [''B''], [''C'']], maxRecent := 3 \<rparr>) \<and>
   distinct [[''A''], [''B''], [''C'']] \<and> [''B''] \<in> set [[''A''], [''B''], [''C'']] \<and>
   recentGames (addRecentGame [''B'']
      (DEFAULTS\<lparr> recentGames := [[''A''], [''B''], [''C'']], maxRecent := 3 \<rparr>))
     = [[''B''], [''A''], [''C'']] \<and>
   length (recentGames (addRecentGame [''B'']
      (DEFAULTS\<lparr> recentGames := [[''A''], [''B''], [''C'']], maxRecent := 3 \<rparr>))) = 3"
  using addRecentGame_spec
    [of "DEFAULTS\<lparr> recentGames := [[''A''], [''B''], [''C'']], maxRecent := 3 \<rparr>" "[''B'']"]
  by simp

section \<open>Properties of the highlight\<close>

lemma listLength_nonneg: "0 \<le> listLength s"
  by (simp add: listLength_def split: option.splits)

lemma navigateUp_keeps:
  "highlightOk s \<Longrightarrow> highlightOk (navigateUp s) \<and> sortedRoms (navigateUp s) = sortedRoms s"
  by (auto simp: highlightOk_def navigateUp_def listLength_def Let_def split: if_splits)

lemma navigateDown_keeps:
  "highlightOk s \<Longrightarrow> highlightOk (navigateDown s) \<and> sortedRoms (navigateDown s) = sortedRoms s"
  by (auto simp: highlightOk_def navigateDown_def listLength_def Let_def
      split: if_splits option.splits)

lemma funpow_keeps:
  assumes step: "\<And>s. highlightOk s \<Longrightarrow> highlightOk (f s) \<and> sortedRoms (f s) = sortedRoms s"
  shows "highlightOk s \<Longrightarrow> highlightOk ((f ^^ n) s) \<and> sortedRoms ((f ^^ n) s) = sortedRoms s"
proof (induction n)
  case 0
  then show ?case by simp
next
  case (Suc n)
  from Suc.IH [OF Suc.prems] step [of "(f ^^ n) s"] show ?case by simp
qed

lemma applyMove_keeps:
  "highlightOk s \<Longrightarrow> highlightOk (applyMove m s) \<and> sortedRoms (applyMove m s) = sortedRoms s"
proof (cases m)
  case Up
  then show "highlightOk s \<Longrightarrow> ?thesis" by (simp add: navigateUp_keeps)
next
  case Down
  then show "highlightOk s \<Longrightarrow> ?thesis" by (simp add: navigateDown_keeps)
next
  case PageUp
  then show "highlightOk s \<Longrightarrow> ?thesis"
    using funpow_keeps [of navigateUp s 10] navigateUp_keeps by simp
next
  case PageDown
  then show "highlightOk s \<Longrightarrow> ?thesis"
    using funpow_keeps [of navigateDown s 10] navigateDown_keeps by simp
qed

lemma applyMoves_keeps:
  "highlightOk s \<Longrightarrow> highlightOk (applyMoves ms s) \<and> sortedRoms (applyMoves ms s) = sortedRoms s"
  unfolding applyMoves_def
proof (induction ms arbitrary: s)
  case Nil
  then show ?case by simp
next
  case (Cons m ms)
  from applyMove_keeps [OF Cons.prems] Cons.IH [of "applyMove m s"] show ?case by simp
qed

lemma empty_list_no_entry: "listLength s = 0 \<Longrightarrow> getSelectedRom s i = None"
  by (cases "sortedRoms s") (auto simp: listLength_def getSelectedRom_def)

text \<open>
  C7. From a highlight that is a row of the active list (row zero when the list is empty),
  every sequence of single steps and ten-step page moves leaves the highlight a row of the
  same list. Moving down on the last row and moving up on row zero change nothing. On an
  empty list the highlight stays zero and there is no current entry.
\<close>

theorem highlight_stays_in_range:
  "highlightOk s \<Longrightarrow>
     highlightOk (applyMoves ms s) \<and>
     sortedRoms (applyMoves ms s) = sortedRoms s \<and>
     (selected s = listLength s - 1 \<longrightarrow> navigateDown s = s) \<and>
     (selected s = 0 \<longrightarrow> navigateUp s = s) \<and>
     (listLength s = 0 \<longrightarrow>
        selected (applyMoves ms s) = 0 \<and>
        getSelectedRom (applyMoves ms s) (selected (applyMoves ms s)) = None)"
proof -
  assume ok: "highlightOk s"
  note keep = applyMoves_keeps [OF ok, of ms]
  have down: "selected s = listLength s - 1 \<longrightarrow> navigateDown s = s"
    by (simp add: navigateDown_def listLength_def Let_def split: option.splits)
  have up: "selected s = 0 \<longrightarrow> navigateUp s = s"
    by (simp add: navigateUp_def Let_def)
  have empty: "selected (applyMoves ms s) = 0 \<and>
      getSelectedRom (applyMoves ms s) (selected (applyMoves ms s)) = None"
    if e: "listLength s = 0"
  proof -
    from keep e have l: "listLength (applyMoves ms s) = 0" by (simp add: listLength_def)
    with keep have "selected (applyMoves ms s) = 0" by (simp add: highlightOk_def)
    with l show ?thesis by (simp add: empty_list_no_entry)
  qed
  from keep down up empty show ?thesis by blast
qed

theorem highlight_stays_in_range_witness:
  "highlightOk \<lparr> selected = 1, sortedRoms = Some
      [\<lparr> name = ''a'', path = [''roms'', ''a.nes''], zipEntry = None, ext = ''.nes'', system = ''NES'' \<rparr>,
       \<lparr> name = ''b'', path = [''roms'', ''b.nes''], zipEntry = None, ext = ''.nes'', system = ''NES'' \<rparr>] \<rparr> \<and>
   highlightOk (applyMoves [PageDown, Down, Up, PageUp, Up]
     \<lparr> selected = 1, sortedRoms = Some
      [\<lparr> name = ''a'', path = [''roms'', ''a.nes''], zipEntry = None, ext = ''.nes'', system = ''NES'' \<rparr>,
       \<lparr> name = ''b'', path = [''roms'', ''b.nes''], zipEntry = None, ext = ''.nes'', system = ''NES'' \<rparr>] \<rparr>)"
proof -
  let ?s = "\<lparr> selected = 1, sortedRoms = Some
      [\<lparr> name = ''a'', path = [''roms'', ''a.nes''], zipEntry = None, ext = ''.nes'', system = ''NES'' \<rparr>,
       \<lparr> name = ''b'', path = [''roms'', ''b.nes''], zipEntry = None, ext = ''.nes'', system = ''NES'' \<rparr>] \<rparr>"
  have h: "highlightOk ?s" by (simp add: highlightOk_def listLength_def)
  from highlight_stays_in_range [OF h, of "[PageDown, Down, Up, PageUp, Up]"] h
  show ?thesis by blast
qed

section \<open>Properties of the recent view\<close>

lemma find_as_filter: "find P xs = (case filter P xs of [] \<Rightarrow> None | x # _ \<Rightarrow> Some x)"
  by (induction xs) auto

lemma showRecentRoms_Nil: "showRecentRoms roms [] = []"
  by (simp add: showRecentRoms_def)

lemma showRecentRoms_Cons:
  "showRecentRoms roms (p # ps) =
     take 1 (filter (\<lambda>r. path r = p) roms) @ showRecentRoms roms ps"
  by (cases "filter (\<lambda>r. path r = p) roms") (simp_all add: showRecentRoms_def find_as_filter)

text \<open>
  C10. The recent view is the concatenation, in the order of the stored list, of the first
  catalog entry whose path is the stored path (one row), or of nothing when no entry has
  that path. A launch stores only the path of the entry, so two entries with one path
  (two members of one archive) leave the same recent list.
\<close>

theorem showRecentRoms_first_match:
  "showRecentRoms roms recent =
     concat (map (\<lambda>p. take 1 (filter (\<lambda>r. path r = p) roms)) recent) \<and>
   (path r1 = path r2 \<longrightarrow> recordLaunch r1 c = recordLaunch r2 c)"
proof
  show "showRecentRoms roms recent =
     concat (map (\<lambda>p. take 1 (filter (\<lambda>r. path r = p) roms)) recent)"
    by (induction recent) (simp_all add: showRecentRoms_Nil showRecentRoms_Cons)
  show "path r1 = path r2 \<longrightarrow> recordLaunch r1 c = recordLaunch r2 c"
    by (simp add: recordLaunch_def)
qed

theorem showRecentRoms_first_match_witness:
  "path \<lparr> name = ''games'', path = [''roms'', ''games.zip''], zipEntry = Some ''2.nes'',
          ext = ''.nes'', system = ''NES'' \<rparr> =
   path \<lparr> name = ''games'', path = [''roms'', ''games.zip''], zipEntry = Some ''1.nes'',
          ext = ''.nes'', system = ''NES'' \<rparr> \<and>
   showRecentRoms
     [\<lparr> name = ''games'', path = [''roms'', ''games.zip''], zipEntry = Some ''1.nes'',
        ext = ''.nes'', system = ''NES'' \<rparr>,
      \<lparr> name = ''games'', path = [''roms'', ''games.zip''], zipEntry = Some ''2.nes'',
        ext = ''.nes'', system = ''NES'' \<rparr>]
     (recentGames (recordLaunch
        \<lparr> name = ''games'', path = [''roms'', ''games.zip''], zipEntry = Some ''2.nes'',
          ext = ''.nes'', system = ''NES'' \<rparr> DEFAULTS))
   = [\<lparr> name = ''games'', path = [''roms'', ''games.zip''], zipEntry = Some ''1.nes'',
        ext = ''.nes'', system = ''NES'' \<rparr>]"
  using showRecentRoms_first_match
    [of "[\<lparr> name = ''games'', path = [''roms'', ''games.zip''], zipEntry = Some ''1.nes'',
        ext = ''.nes'', system = ''NES'' \<rparr>,
      \<lparr> name = ''games'', path = [''roms'', ''games.zip''], zipEntry = Some ''2.nes'',
        ext = ''.nes'', system = ''NES'' \<rparr>]"
       "[[''roms'', ''games.zip'']]"
       "\<lparr> name = ''games'', path = [''roms'', ''games.zip''], zipEntry = Some ''2.nes'',
          ext = ''.nes'', system = ''NES'' \<rparr>"
       "\<lparr> name = ''games'', path = [''roms'', ''games.zip''], zipEntry = Some ''1.nes'',
          ext = ''.nes'', system = ''NES'' \<rparr>"
       DEFAULTS]
  by (simp add: recordLaunch_def addRecentGame_def DEFAULTS_def slice0_def)

section \<open>Properties of the launch arguments\<close>

lemma contrastValue_neutral_iff: "contrastValue c = 1 \<longleftrightarrow> contrastSlider c = 4"
  by (simp add: contrastValue_def field_simps)

text \<open>
  C1. With the default configuration, whose contrast slider is 5, the conversion gives
  \<open>7 / 6\<close> and the argument list ends with \<open>--contrast 1.17\<close>. The slider value that
  the conversion maps to 1, and for which no contrast argument is passed, is 4.
\<close>

theorem launchArgs_default_contrast:
  "launchArgs DEFAULTS
     \<lparr> name = ''mario'', path = [''roms'', ''mario.nes''], zipEntry = None,
       ext = ''.nes'', system = ''NES'' \<rparr>
   = [''/roms/mario.nes'', ''--symbols'', ''ascii+block'', ''--colors'', ''256'',
      ''--fg-only'', ''--contrast'', ''1.17''] \<and>
   contrastValue DEFAULTS = 7 / 6 \<and>
   launchArgs (DEFAULTS\<lparr> contrast := 4 \<rparr>)
     \<lparr> name = ''mario'', path = [''roms'', ''mario.nes''], zipEntry = None,
       ext = ''.nes'', system = ''NES'' \<rparr>
   = [''/roms/mario.nes'', ''--symbols'', ''ascii+block'', ''--colors'', ''256'',
      ''--fg-only'']"
  by code_simp

section \<open>Properties of controller polling\<close>

lemma pollTick_gated: "waitingForRelease s \<Longrightarrow> fst (pollTick t s) = []"
  by (simp add: pollTick_def handleGamepadInput_def Let_def)

lemma pollTick_stays_armed:
  "waitingForRelease s \<Longrightarrow> \<not> allReleased t \<Longrightarrow> waitingForRelease (snd (pollTick t s))"
  by (auto simp: pollTick_def allReleased_def handleGamepadInput_def Let_def)

lemma runTicks_gated:
  "waitingForRelease s \<Longrightarrow> k < length ts \<Longrightarrow> (\<forall>j<k. \<not> allReleased (ts ! j)) \<Longrightarrow>
     runTicks ts s ! k = []"
proof (induction ts arbitrary: s k)
  case Nil
  then show ?case by simp
next
  case (Cons t ts)
  show ?case
  proof (cases k)
    case 0
    with Cons.prems(1) show ?thesis by (simp add: pollTick_gated)
  next
    case (Suc k')
    from Cons.prems(3) Suc have first: "\<not> allReleased t" by auto
    from Cons.prems(3) Suc have rest: "\<forall>j<k'. \<not> allReleased (ts ! j)" by auto
    from Cons.prems(2) Suc have len: "k' < length ts" by simp
    from Cons.IH [OF pollTick_stays_armed [OF Cons.prems(1) first] len rest] Suc
    show ?thesis by simp
  qed
qed

text \<open>
  C2. Polling starts with the gate armed. A tick that finds the gate armed makes no
  handler call at all. In any sequence of ticks after the start, a tick that makes a call
  comes after a tick that showed a device with every button released.
\<close>

theorem release_gate:
  "waitingForRelease startControllerPolling \<and>
   (waitingForRelease s \<longrightarrow> fst (pollTick t s) = []) \<and>
   (k < length ts \<and> runTicks ts startControllerPolling ! k \<noteq> [] \<longrightarrow>
      (\<exists>j<k. allReleased (ts ! j)))"
proof -
  have armed: "waitingForRelease startControllerPolling"
    by (simp add: startControllerPolling_def)
  have "\<exists>j<k. allReleased (ts ! j)"
    if "k < length ts" and "runTicks ts startControllerPolling ! k \<noteq> []"
    using runTicks_gated [OF armed that(1)] that(2) by blast
  with armed pollTick_gated [of s t] show ?thesis by blast
qed

theorem release_gate_witness:
  "runTicks
     [\<lparr> dialogOpen = False, clock = 1000, slots = [Some \<lparr> buttons = [Some True, Some False], axes = [] \<rparr>] \<rparr>,
      \<lparr> dialogOpen = False, clock = 1016, slots = [Some \<lparr> buttons = [Some False, Some False], axes = [] \<rparr>] \<rparr>,
      \<lparr> dialogOpen = False, clock = 1032, slots = [Some \<lparr> buttons = [Some True, Some False], axes = [] \<rparr>] \<rparr>]
     startControllerPolling = [[], [], [LaunchSelected]] \<and>
   (\<exists>j<2. allReleased
     ([\<lparr> dialogOpen = False, clock = 1000, slots = [Some \<lparr> buttons = [Some True, Some False], axes = [] \<rparr>] \<rparr>,
      \<lparr> dialogOpen = False, clock = 1016, slots = [Some \<lparr> buttons = [Some False, Some False], axes = [] \<rparr>] \<rparr>,
      \<lparr> dialogOpen = False, clock = 1032, slots = [Some \<lparr> buttons = [Some True, Some False], axes = [] \<rparr>] \<rparr>] ! j))"
proof -
  let ?ts = "[\<lparr> dialogOpen = False, clock = 1000, slots = [Some \<lparr> buttons = [Some True, Some False], axes = [] \<rparr>] \<rparr>,
      \<lparr> dialogOpen = False, clock = 1016, slots = [Some \<lparr> buttons = [Some False, Some False], axes = [] \<rparr>] \<rparr>,
      \<lparr> dialogOpen = False, clock = 1032, slots = [Some \<lparr> buttons = [Some True, Some False], axes = [] \<rparr>] \<rparr>]"
  have run: "runTicks ?ts startControllerPolling = [[], [], [LaunchSelected]]"
    by code_simp
  then have "2 < length ?ts \<and> runTicks ?ts startControllerPolling ! 2 \<noteq> []"
    by simp
  with release_gate [where k = 2 and ts = ?ts] have "\<exists>j<2. allReleased (?ts ! j)"
    by blast
  with run show ?thesis by blast
qed

section \<open>Properties of the scanner: one entry\<close>

lemma onEntry_cases:
  "onEntry zp zn f =
     (if isRomExt (toLowerCase (extname f)) \<and> \<not> startsWith f ''__MACOSX''
      then [\<lparr> name = (if isDigits (basename f (toLowerCase (extname f))) \<or>
                         length (basename f (toLowerCase (extname f))) < 3
                      then zn else basename f (toLowerCase (extname f))),
              path = zp, zipEntry = Some f, ext = toLowerCase (extname f),
              system = systemName (toLowerCase (extname f)) \<rparr>]
      else [])"
  by (simp add: onEntry_def Let_def)

lemma scanZip_Listing:
  "scanZip zp (Listing ms) =
     (Normal, concat (map (onEntry zp (basename (last zp) (extname (last zp)))) ms))"
  by (simp add: scanZip_def Let_def)

lemma extsys_onEntry:
  "map (\<lambda>r. (ext r, system r)) (onEntry zp zn f) =
     (if isRomExt (toLowerCase (extname f)) \<and> \<not> startsWith f ''__MACOSX''
      then [(toLowerCase (extname f), systemName (toLowerCase (extname f)))] else [])"
  by (simp add: onEntry_cases)

section \<open>Properties of the scanner: the paths of the entries\<close>

lemma path_onEntry: "r \<in> set (onEntry zp zn f) \<Longrightarrow> path r = zp"
  by (auto simp: onEntry_def Let_def split: if_splits)

lemma path_scanZip: "r \<in> set (snd (scanZip zp a)) \<Longrightarrow> path r = zp"
  by (cases a) (auto simp: scanZip_def Let_def dest: path_onEntry)

lemma path_scanFile: "r \<in> set (snd (scanFile e p child)) \<Longrightarrow> path r = p"
  using path_scanZip [of r p "archiveOf child"]
  by (cases "scanZip p (archiveOf child)")
     (auto simp: scanFile_def Let_def split: if_splits completion.splits)

lemma snd_catching: "snd (catching res) = snd res"
  by (simp add: catching_def)

lemma set_thenRest: "set (snd (thenRest a b)) \<subseteq> set (snd a) \<union> set (snd b)"
  by (simp add: thenRest_def)

lemma scan_shape:
  "\<forall>r\<in>set (snd (scanDir dir node depth)).
      \<exists>cs. path r = dir @ cs \<and> cs \<noteq> [] \<and> length cs + depth \<le> 4 \<and>
           (\<forall>c\<in>set cs. \<not> startsWith c ''.'')"
  "depth \<le> 3 \<longrightarrow> (\<forall>r\<in>set (snd (tryEntry dir entry child depth)).
      \<exists>cs. path r = dir @ entry # cs \<and> length cs + depth \<le> 3 \<and>
           (\<forall>c\<in>set cs. \<not> startsWith c ''.''))"
  "depth \<le> 3 \<longrightarrow> (\<forall>r\<in>set (snd (scanEntries dir es depth)).
      \<exists>e cs. e \<in> fst ` set es \<and> path r = dir @ e # cs \<and> length cs + depth \<le> 3 \<and>
           \<not> startsWith e ''.'' \<and> (\<forall>c\<in>set cs. \<not> startsWith c ''.''))"
proof (induction dir node depth and dir entry child depth and dir es depth
    rule: scanDir_tryEntry_scanEntries.induct)
  case (1 dir entries depth)
  show ?case
  proof (cases "depth > 3")
    case True
    then show ?thesis by simp
  next
    case False
    show ?thesis
    proof
      fix r assume "r \<in> set (snd (scanDir dir (Directory entries) depth))"
      with False have "r \<in> set (snd (scanEntries dir entries depth))"
        by (simp add: snd_catching)
      with 1 False obtain e cs where "path r = dir @ e # cs" "length cs + depth \<le> 3"
        "\<not> startsWith e ''.''" "\<forall>c\<in>set cs. \<not> startsWith c ''.''" by fastforce
      then show "\<exists>cs. path r = dir @ cs \<and> cs \<noteq> [] \<and> length cs + depth \<le> 4 \<and>
           (\<forall>c\<in>set cs. \<not> startsWith c ''.'')"
        by (intro exI [of _ "e # cs"]) simp
    qed
  qed
next
  case (6 dir entry child depth)
  show ?case
  proof (intro impI ballI)
    fix r assume d: "depth \<le> 3" and r: "r \<in> set (snd (tryEntry dir entry child depth))"
    show "\<exists>cs. path r = dir @ entry # cs \<and> length cs + depth \<le> 3 \<and>
           (\<forall>c\<in>set cs. \<not> startsWith c ''.'')"
    proof (cases "statSync child = Some IsDirectory")
      case True
      with r have "r \<in> set (snd (scanDir (join dir entry) child (depth + 1)))"
        by (simp add: tryEntry.simps snd_catching)
      with 6 True obtain cs where
        "path r = join dir entry @ cs" "cs \<noteq> []" "length cs + (depth + 1) \<le> 4"
        "\<forall>c\<in>set cs. \<not> startsWith c ''.''" by fastforce
      then show ?thesis by (intro exI [of _ cs]) (simp add: join_def)
    next
      case False
      with r have "r \<in> set (snd (scanFile entry (join dir entry) child))"
        by (auto simp: tryEntry.simps snd_catching split: if_splits)
      then have "path r = join dir entry" by (rule path_scanFile)
      with d show ?thesis by (intro exI [of _ "[]"]) (simp add: join_def)
    qed
  qed
next
  case (8 dir entry child rest depth)
  show ?case
  proof (cases "startsWith entry ''.''")
    case True
    with 8(1) [OF True] show ?thesis by simp blast
  next
    case False
    show ?thesis
    proof (intro impI ballI)
      fix r assume d: "depth \<le> 3"
        and "r \<in> set (snd (scanEntries dir ((entry, child) # rest) depth))"
      with False set_thenRest
      have "r \<in> set (snd (tryEntry dir entry child depth)) \<or>
            r \<in> set (snd (scanEntries dir rest depth))"
        by fastforce
      then show "\<exists>e cs. e \<in> fst ` set ((entry, child) # rest) \<and> path r = dir @ e # cs \<and>
           length cs + depth \<le> 3 \<and> \<not> startsWith e ''.'' \<and> (\<forall>c\<in>set cs. \<not> startsWith c ''.'')"
      proof
        assume "r \<in> set (snd (tryEntry dir entry child depth))"
        with 8(2) [OF False] d obtain cs where "path r = dir @ entry # cs"
          "length cs + depth \<le> 3" "\<forall>c\<in>set cs. \<not> startsWith c ''.''" by blast
        with False show ?thesis by (intro exI [of _ entry] exI [of _ cs]) simp
      next
        assume "r \<in> set (snd (scanEntries dir rest depth))"
        with 8(3) [OF False] d obtain e cs where "e \<in> fst ` set rest" "path r = dir @ e # cs"
          "length cs + depth \<le> 3" "\<not> startsWith e ''.''" "\<forall>c\<in>set cs. \<not> startsWith c ''.''"
          by blast
        then show ?thesis by (intro exI [of _ e] exI [of _ cs]) simp
      qed
    qed
  qed
qed simp_all

section \<open>Properties of the scanner: the files of a tree\<close>

lemma fst_tryEntry: "fst (tryEntry dir entry child depth) \<noteq> Thrown"
  by (simp add: tryEntry.simps catching_def)

lemma scanDir_not_thrown: "fst (scanDir dir node depth) \<noteq> Thrown"
  by (cases node) (simp_all add: catching_def)

lemma scanEntries_not_thrown: "fst (scanEntries dir es depth) \<noteq> Thrown"
proof (induction es)
  case Nil
  then show ?case by simp
next
  case (Cons x es)
  obtain entry child where x: "x = (entry, child)" by (cases x)
  from Cons fst_tryEntry [of dir entry child depth] show ?case
    unfolding x by (simp add: thenRest_def)
qed

lemma wellNamed_child:
  "wellNamedEntries es \<Longrightarrow> (c, child) \<in> set es \<Longrightarrow> wellNamed child"
  by (induction es) auto

lemma tryEntry_shape:
  assumes "r \<in> set (snd (tryEntry dir entry child depth))"
  shows "\<exists>cs. path r = dir @ entry # cs"
proof (cases "statSync child = Some IsDirectory")
  case True
  with assms have "r \<in> set (snd (scanDir (join dir entry) child (depth + 1)))"
    by (simp add: tryEntry.simps snd_catching)
  with scan_shape(1) [of "join dir entry" child "depth + 1"]
  obtain cs where "path r = join dir entry @ cs" by blast
  then show ?thesis by (simp add: join_def)
next
  case False
  with assms have "r \<in> set (snd (scanFile entry (join dir entry) child))"
    by (auto simp: tryEntry.simps snd_catching split: if_splits)
  then have "path r = join dir entry" by (rule path_scanFile)
  then show ?thesis by (simp add: join_def)
qed

lemma entries_count:
  assumes "distinct (map fst es)" and "(c, child) \<in> set es" and "\<not> startsWith c ''.''"
    and "fst (scanEntries dir es depth) = Normal" and "depth \<le> 3"
  shows "fst (tryEntry dir c child depth) = Normal \<and>
         filter (\<lambda>r. path r = dir @ c # cs) (snd (scanEntries dir es depth)) =
         filter (\<lambda>r. path r = dir @ c # cs) (snd (tryEntry dir c child depth))"
  using assms
proof (induction es)
  case Nil
  then show ?case by simp
next
  case (Cons x es)
  obtain e ch where x: "x = (e, ch)" by (cases x)
  show ?case
  proof (cases "startsWith e ''.''")
    case True
    with Cons.prems x have "e \<noteq> c" by auto
    with Cons.prems x have m: "(c, child) \<in> set es" by auto
    from Cons.prems x True have n: "fst (scanEntries dir es depth) = Normal"
      by simp
    from Cons.prems have d: "distinct (map fst es)" by simp
    from Cons.IH [OF d m Cons.prems(3) n Cons.prems(5)] True x show ?thesis
      by simp
  next
    case False
    let ?A = "tryEntry dir e ch depth" and ?B = "scanEntries dir es depth"
    from False x have eq: "scanEntries dir (x # es) depth = thenRest ?A ?B"
      by simp
    with Cons.prems(4) have nu: "fst ?A \<noteq> Unhandled" and nb: "fst ?B = Normal"
      by (auto simp: thenRest_def split: if_splits)
    with fst_tryEntry [of dir e ch depth] have na: "fst ?A = Normal" by (cases "fst ?A") auto
    from nu eq have sn: "snd (scanEntries dir (x # es) depth) = snd ?A @ snd ?B"
      by (simp add: thenRest_def)
    from Cons.prems have d: "distinct (map fst es)" by simp
    show ?thesis
    proof (cases "e = c")
      case True
      with Cons.prems x have "ch = child" by (auto simp: image_iff)
      have "filter (\<lambda>r. path r = dir @ c # cs) (snd ?B) = []"
      proof (rule filter_False, rule ballI)
        fix r assume "r \<in> set (snd ?B)"
        with scan_shape(3) [of depth dir es] Cons.prems(5)
        obtain e' cs' where "e' \<in> fst ` set es" "path r = dir @ e' # cs'" by blast
        moreover from Cons.prems x True have "c \<notin> fst ` set es" by simp
        ultimately show "\<not> path r = dir @ c # cs" by auto
      qed
      with sn True \<open>ch = child\<close> na show ?thesis by simp
    next
      case False
      with Cons.prems x have m: "(c, child) \<in> set es" by auto
      have "filter (\<lambda>r. path r = dir @ c # cs) (snd ?A) = []"
      proof (rule filter_False, rule ballI)
        fix r assume "r \<in> set (snd ?A)"
        from tryEntry_shape [OF this] False show "\<not> path r = dir @ c # cs" by auto
      qed
      with sn Cons.IH [OF d m Cons.prems(3) nb Cons.prems(5)] show ?thesis by simp
    qed
  qed
qed

lemma zip_not_rom: "\<not> isRomExt ''.zip''"
  by code_simp

lemma scanFile_rom:
  "isRomExt (toLowerCase (extname entry)) \<Longrightarrow>
     scanFile entry p child =
       (Normal, [\<lparr> name = basename entry (toLowerCase (extname entry)), path = p,
                   zipEntry = None, ext = toLowerCase (extname entry),
                   system = systemName (toLowerCase (extname entry)) \<rparr>])"
  using zip_not_rom by (auto simp: scanFile_def Let_def)

lemma filter_path_scanFile:
  "filter (\<lambda>r. path r = p) (snd (scanFile e p child)) = snd (scanFile e p child)"
  by (rule filter_True) (simp add: path_scanFile)

lemma node_found:
  "wellNamed node \<Longrightarrow> fst (scanDir dir node depth) = Normal \<Longrightarrow>
   locate node comps = Some (RegularFile a) \<Longrightarrow> comps \<noteq> [] \<Longrightarrow> length comps + depth \<le> 4 \<Longrightarrow>
   (\<forall>c\<in>set comps. \<not> startsWith c ''.'') \<Longrightarrow>
   filter (\<lambda>r. path r = dir @ comps) (snd (scanDir dir node depth)) =
     snd (scanFile (last comps) (dir @ comps) (RegularFile a))"
proof (induction comps arbitrary: node dir depth)
  case Nil
  then show ?case by simp
next
  case (Cons c cs)
  from Cons.prems(3) obtain es where node: "node = Directory es"
    by (cases node) simp_all
  with Cons.prems(3) obtain child where mo: "map_of es c = Some child"
    and loc: "locate child cs = Some (RegularFile a)"
    by (auto split: option.splits)
  from mo have mem: "(c, child) \<in> set es" by (rule map_of_SomeD)
  from Cons.prems(5) have d3: "depth \<le> 3" by simp
  from Cons.prems(1) node have dist: "distinct (map fst es)" and wn: "wellNamedEntries es"
    by simp_all
  from Cons.prems(6) have nodot: "\<not> startsWith c ''.''" by simp
  from d3 node have sd: "scanDir dir node depth = catching (scanEntries dir es depth)"
    by simp
  with Cons.prems(2) scanEntries_not_thrown [of dir es depth]
  have ne: "fst (scanEntries dir es depth) = Normal"
    by (simp add: catching_def split: if_splits)
  from entries_count [OF dist mem nodot ne d3, of cs]
  have nt: "fst (tryEntry dir c child depth) = Normal"
    and cnt: "filter (\<lambda>r. path r = dir @ c # cs) (snd (scanEntries dir es depth)) =
         filter (\<lambda>r. path r = dir @ c # cs) (snd (tryEntry dir c child depth))" by simp_all
  show ?case
  proof (cases cs)
    case Nil
    with loc have ch: "child = RegularFile a" by simp
    then have "tryEntry dir c child depth = catching (scanFile c (join dir c) child)"
      by (simp add: tryEntry.simps statSync_def)
    with filter_path_scanFile [of "join dir c" c child] cnt sd Nil ch show ?thesis
      by (simp add: snd_catching join_def)
  next
    case (Cons c' cs')
    with loc obtain es' where ch: "child = Directory es'" by (cases child) simp_all
    then have te: "tryEntry dir c child depth = catching (scanDir (join dir c) child (depth + 1))"
      by (simp add: tryEntry.simps statSync_def)
    with nt scanDir_not_thrown [of "join dir c" child "depth + 1"]
    have nc: "fst (scanDir (join dir c) child (depth + 1)) = Normal"
      by (simp add: catching_def split: if_splits)
    from Cons.prems(5) have len: "length cs + (depth + 1) \<le> 4" by simp
    from Cons.prems(6) have nd: "\<forall>x\<in>set cs. \<not> startsWith x ''.''" by simp
    from Cons have ne': "cs \<noteq> []" by simp
    from Cons.IH [OF wellNamed_child [OF wn mem] nc loc ne' len nd]
    have "filter (\<lambda>r. path r = join dir c @ cs) (snd (scanDir (join dir c) child (depth + 1))) =
       snd (scanFile (last cs) (join dir c @ cs) (RegularFile a))" .
    with cnt sd te ne' show ?thesis
      by (simp add: snd_catching join_def)
  qed
qed

lemma file_found:
  "wellNamed node \<Longrightarrow> fst (scanDir dir node depth) = Normal \<Longrightarrow>
   locate node comps = Some (RegularFile a) \<Longrightarrow> comps \<noteq> [] \<Longrightarrow> length comps + depth \<le> 4 \<Longrightarrow>
   (\<forall>c\<in>set comps. \<not> startsWith c ''.'') \<Longrightarrow> isRomExt (toLowerCase (extname (last comps))) \<Longrightarrow>
   filter (\<lambda>r. path r = dir @ comps) (snd (scanDir dir node depth)) =
     [\<lparr> name = basename (last comps) (toLowerCase (extname (last comps))), path = dir @ comps,
        zipEntry = None, ext = toLowerCase (extname (last comps)),
        system = systemName (toLowerCase (extname (last comps))) \<rparr>]"
  using node_found [of node dir depth comps a] by (simp add: scanFile_rom)

lemma archive_found:
  "wellNamed node \<Longrightarrow> fst (scanDir dir node depth) = Normal \<Longrightarrow>
   locate node comps = Some (RegularFile (Listing ms)) \<Longrightarrow> comps \<noteq> [] \<Longrightarrow>
   length comps + depth \<le> 4 \<Longrightarrow> (\<forall>c\<in>set comps. \<not> startsWith c ''.'') \<Longrightarrow>
   toLowerCase (extname (last comps)) = ''.zip'' \<Longrightarrow>
   filter (\<lambda>r. path r = dir @ comps) (snd (scanDir dir node depth)) =
     snd (scanZip (dir @ comps) (Listing ms))"
  using node_found [of node dir depth comps "Listing ms"]
  by (simp add: scanFile_def scanZip_def archiveOf_def Let_def)

lemma mset_insertRom: "mset (insertRom cmp x ys) = add_mset x (mset ys)"
  by (induction ys) simp_all

lemma mset_sortByName: "mset (sortByName cmp xs) = mset xs"
  by (induction xs) (simp_all add: sortByName_def mset_insertRom)

lemma set_sortByName: "set (sortByName cmp xs) = set xs"
  using mset_sortByName [of cmp xs] by (metis set_mset_mset)

lemma filter_sortByName_single:
  assumes "filter P xs = [r]"
  shows "filter P (sortByName cmp xs) = [r]"
proof -
  have "mset (filter P (sortByName cmp xs)) = filter_mset P (mset (sortByName cmp xs))"
    by simp
  also have "\<dots> = mset (filter P xs)" by (simp add: mset_sortByName)
  also have "\<dots> = {#r#}" using assms by simp
  finally show ?thesis by (simp only: mset_single_iff)
qed

lemma set_snd_scan: "set (snd (scan cmp dir tree)) = set (snd (scanDir dir tree 0))"
  by (simp add: scan_def Let_def set_sortByName)

lemma fst_scan: "fst (scan cmp dir tree) = fst (scanDir dir tree 0)"
  by (simp add: scan_def Let_def)

lemma scanZip_listing_ok:
  "(case a of ListingFails _ \<Rightarrow> False | _ \<Rightarrow> True) \<Longrightarrow> fst (scanZip p a) = Normal"
  by (cases a) (simp_all add: scanZip_def Let_def)

lemma scanFile_listing_ok:
  assumes "listingsEnd child"
  shows "fst (scanFile e p child) = Normal"
proof (cases child)
  case (RegularFile a)
  with assms scanZip_listing_ok [of a p] show ?thesis
    by (cases "scanZip p a") (auto simp: scanFile_def Let_def archiveOf_def)
qed (simp_all add: scanFile_def Let_def archiveOf_def scanZip_def)

lemma scan_returns:
  "listingsEnd node \<longrightarrow> fst (scanDir dir node depth) = Normal"
  "listingsEnd child \<longrightarrow> fst (tryEntry dir entry child depth) = Normal"
  "listingsEndEntries es \<longrightarrow> fst (scanEntries dir es depth) = Normal"
proof (induction dir node depth and dir entry child depth and dir es depth
    rule: scanDir_tryEntry_scanEntries.induct)
  case (1 dir entries depth)
  then show ?case by (simp add: catching_def)
next
  case (6 dir entry child depth)
  show ?case
  proof
    assume c: "listingsEnd child"
    show "fst (tryEntry dir entry child depth) = Normal"
    proof (cases "statSync child = Some IsDirectory")
      case True
      with 6 c show ?thesis by (simp add: tryEntry.simps catching_def)
    next
      case False
      with scanFile_listing_ok [OF c, of entry "join dir entry"] show ?thesis
        by (simp add: tryEntry.simps catching_def)
    qed
  qed
next
  case (8 dir entry child rest depth)
  then show ?case by (simp add: thenRest_def)
qed simp_all

lemma failed_entry_skipped:
  assumes "child = Unreadable \<or> child = NoStat \<or> child = Special \<or>
           (child = RegularFile OpenFails \<and> toLowerCase (extname entry) = ''.zip'')"
  shows "scanEntries dir ((entry, child) # rest) depth = scanEntries dir rest depth"
proof -
  from assms have "tryEntry dir entry child depth = (Normal, [])"
    by (auto simp: tryEntry.simps catching_def statSync_def scanFile_def scanZip_def
        archiveOf_def Let_def)
  then show ?thesis by (simp add: thenRest_def)
qed

text \<open>
  C6. An archive that opens and then reports an error while its members are listed: the
  scan does not return a catalog. It ends in the \<open>error\<close> event, with the entries
  pushed so far; the file after the archive is never reached.
\<close>

theorem scan_listing_error_unhandled:
  "scan localeCompare [''roms'']
     (Directory [(''a.nes'', RegularFile OpenFails),
                 (''bad.zip'', RegularFile (ListingFails [])),
                 (''b.nes'', RegularFile OpenFails)])
   = (Unhandled, [\<lparr> name = ''a'', path = [''roms'', ''a.nes''], zipEntry = None,
                     ext = ''.nes'', system = ''NES'' \<rparr>])"
  by code_simp

text \<open>
  Directory entries: every entry of a scan has a path below the root none of whose
  components, directory or file, begins with a dot.
\<close>

theorem hidden_entries_excluded:
  "\<forall>r\<in>set (snd (scan localeCompare romsDir tree)).
      \<exists>cs. path r = romsDir @ cs \<and> cs \<noteq> [] \<and> (\<forall>c\<in>set cs. \<not> startsWith c ''.'')"
  unfolding set_snd_scan using scan_shape(1) [of romsDir tree 0] by blast

theorem hidden_entries_excluded_witness:
  "scan (\<lambda>a b. 0) [''roms'']
     (Directory [(''.hidden.nes'', RegularFile OpenFails),
                 (''.secret'', Directory [(''zelda.nes'', RegularFile OpenFails)]),
                 (''mario.nes'', RegularFile OpenFails)])
   = (Normal, [\<lparr> name = ''mario'', path = [''roms'', ''mario.nes''], zipEntry = None,
                 ext = ''.nes'', system = ''NES'' \<rparr>]) \<and>
   (\<exists>cs. [''roms'', ''mario.nes''] = [''roms''] @ cs \<and> cs \<noteq> [] \<and>
         (\<forall>c\<in>set cs. \<not> startsWith c ''.''))"
proof -
  let ?tree = "Directory [(''.hidden.nes'', RegularFile OpenFails),
                 (''.secret'', Directory [(''zelda.nes'', RegularFile OpenFails)]),
                 (''mario.nes'', RegularFile OpenFails)]"
  let ?r = "\<lparr> name = ''mario'', path = [''roms'', ''mario.nes''], zipEntry = None,
                 ext = ''.nes'', system = ''NES'' \<rparr>"
  have run: "scan (\<lambda>a b. 0) [''roms''] ?tree = (Normal, [?r])"
    by code_simp
  then have "?r \<in> set (snd (scan (\<lambda>a b. 0) [''roms''] ?tree))" by simp
  with hidden_entries_excluded [of "\<lambda>a b. 0" "[''roms'']" ?tree]
  have "\<exists>cs. path ?r = [''roms''] @ cs \<and> cs \<noteq> [] \<and> (\<forall>c\<in>set cs. \<not> startsWith c ''.'')"
    by blast
  with run show ?thesis by simp
qed

text \<open>
  C3. Hidden archive members are not excluded. The scan of a root that holds the archive
  \<open>h.zip\<close> with the single member \<open>.hidden.nes\<close> returns one entry for that
  member, named \<open>.hidden\<close>: the listener tests the extension and the prefix
  \<open>__MACOSX\<close>, and not the leading dot that the directory loop tests.
\<close>

theorem hidden_archive_member_cataloged:
  "scan (\<lambda>a b. 0) [''roms''] (Directory [(''h.zip'', RegularFile (Listing [''.hidden.nes'']))])
   = (Normal, [\<lparr> name = ''.hidden'', path = [''roms'', ''h.zip''],
                 zipEntry = Some ''.hidden.nes'', ext = ''.nes'', system = ''NES'' \<rparr>])"
  by code_simp

text \<open>
  C5, as amended. In a tree that lists each name once and in which no archive fails while
  it is listed, the scan returns and: every entry lies at most three directories below
  the root; and a regular file with a recognized extension, at most three directories
  below the root, reached through directories that can be listed, with no name on its
  path beginning with a dot, is the path of exactly one entry, which has the system of
  its lowercased extension.
\<close>

theorem scan_depth_and_coverage:
  "wellNamed tree \<and> listingsEnd tree \<Longrightarrow>
     fst (scan localeCompare romsDir tree) = Normal \<and>
     (\<forall>r\<in>set (snd (scan localeCompare romsDir tree)).
         \<exists>cs. path r = romsDir @ cs \<and> cs \<noteq> [] \<and> length cs \<le> 4) \<and>
     (locate tree comps = Some (RegularFile a) \<and> comps \<noteq> [] \<and> length comps \<le> 4 \<and>
      (\<forall>c\<in>set comps. \<not> startsWith c ''.'') \<and>
      isRomExt (toLowerCase (extname (last comps))) \<longrightarrow>
        filter (\<lambda>r. path r = romsDir @ comps) (snd (scan localeCompare romsDir tree)) =
          [\<lparr> name = basename (last comps) (toLowerCase (extname (last comps))),
             path = romsDir @ comps, zipEntry = None,
             ext = toLowerCase (extname (last comps)),
             system = systemName (toLowerCase (extname (last comps))) \<rparr>])"
proof -
  assume a: "wellNamed tree \<and> listingsEnd tree"
  then have wn: "wellNamed tree" and n: "fst (scanDir romsDir tree 0) = Normal"
    using scan_returns(1) [of tree romsDir 0] by simp_all
  have ret: "fst (scan localeCompare romsDir tree) = Normal"
    using n by (simp add: fst_scan)
  have bound: "\<forall>r\<in>set (snd (scan localeCompare romsDir tree)).
         \<exists>cs. path r = romsDir @ cs \<and> cs \<noteq> [] \<and> length cs \<le> 4"
    unfolding set_snd_scan using scan_shape(1) [of romsDir tree 0] by fastforce
  have found: "filter (\<lambda>r. path r = romsDir @ comps) (snd (scan localeCompare romsDir tree)) =
          [\<lparr> name = basename (last comps) (toLowerCase (extname (last comps))),
             path = romsDir @ comps, zipEntry = None,
             ext = toLowerCase (extname (last comps)),
             system = systemName (toLowerCase (extname (last comps))) \<rparr>]"
    if l: "locate tree comps = Some (RegularFile a)" and ne: "comps \<noteq> []"
      and len: "length comps \<le> 4" and nd: "\<forall>c\<in>set comps. \<not> startsWith c ''.''"
      and rom: "isRomExt (toLowerCase (extname (last comps)))"
  proof -
    from len have len': "length comps + 0 \<le> 4" by simp
    from file_found [OF wn n l ne len' nd rom] n show ?thesis
      by (simp add: scan_def Let_def filter_sortByName_single)
  qed
  from ret bound found show ?thesis by blast
qed

theorem scan_depth_and_coverage_witness:
  "wellNamed (Directory
      [(''d1'', Directory [(''d2'', Directory [(''d3'', Directory
          [(''deep.gb'', RegularFile OpenFails),
           (''d4'', Directory [(''toodeep.gb'', RegularFile OpenFails)])])])]),
       (''mario.nes'', RegularFile OpenFails)]) \<and>
   listingsEnd (Directory
      [(''d1'', Directory [(''d2'', Directory [(''d3'', Directory
          [(''deep.gb'', RegularFile OpenFails),
           (''d4'', Directory [(''toodeep.gb'', RegularFile OpenFails)])])])]),
       (''mario.nes'', RegularFile OpenFails)]) \<and>
   locate (Directory
      [(''d1'', Directory [(''d2'', Directory [(''d3'', Directory
          [(''deep.gb'', RegularFile OpenFails),
           (''d4'', Directory [(''toodeep.gb'', RegularFile OpenFails)])])])]),
       (''mario.nes'', RegularFile OpenFails)]) [''d1'', ''d2'', ''d3'', ''deep.gb'']
     = Some (RegularFile OpenFails) \<and>
   scan (\<lambda>a b. 0) [''roms''] (Directory
      [(''d1'', Directory [(''d2'', Directory [(''d3'', Directory
          [(''deep.gb'', RegularFile OpenFails),
           (''d4'', Directory [(''toodeep.gb'', RegularFile OpenFails)])])])]),
       (''mario.nes'', RegularFile OpenFails)])
   = (Normal,
      [\<lparr> name = ''deep'', path = [''roms'', ''d1'', ''d2'', ''d3'', ''deep.gb''], zipEntry = None,
         ext = ''.gb'', system = ''Game Boy'' \<rparr>,
       \<lparr> name = ''mario'', path = [''roms'', ''mario.nes''], zipEntry = None,
         ext = ''.nes'', system = ''NES'' \<rparr>]) \<and>
   filter (\<lambda>r. path r = [''roms''] @ [''d1'', ''d2'', ''d3'', ''deep.gb''])
     (snd (scan (\<lambda>a b. 0) [''roms''] (Directory
      [(''d1'', Directory [(''d2'', Directory [(''d3'', Directory
          [(''deep.gb'', RegularFile OpenFails),
           (''d4'', Directory [(''toodeep.gb'', RegularFile OpenFails)])])])]),
       (''mario.nes'', RegularFile OpenFails)])))
   = [\<lparr> name = ''deep'', path = [''roms'', ''d1'', ''d2'', ''d3'', ''deep.gb''], zipEntry = None,
         ext = ''.gb'', system = ''Game Boy'' \<rparr>]"
proof -
  let ?tree = "Directory
      [(''d1'', Directory [(''d2'', Directory [(''d3'', Directory
          [(''deep.gb'', RegularFile OpenFails),
           (''d4'', Directory [(''toodeep.gb'', RegularFile OpenFails)])])])]),
       (''mario.nes'', RegularFile OpenFails)]"
  let ?comps = "[''d1'', ''d2'', ''d3'', ''deep.gb'']"
  have wn: "wellNamed ?tree" by code_simp
  have run: "scan (\<lambda>a b. 0) [''roms''] ?tree
   = (Normal,
      [\<lparr> name = ''deep'', path = [''roms'', ''d1'', ''d2'', ''d3'', ''deep.gb''], zipEntry = None,
         ext = ''.gb'', system = ''Game Boy'' \<rparr>,
       \<lparr> name = ''mario'', path = [''roms'', ''mario.nes''], zipEntry = None,
         ext = ''.nes'', system = ''NES'' \<rparr>])" by code_simp
  have n: "listingsEnd ?tree" by code_simp
  have l: "locate ?tree ?comps = Some (RegularFile OpenFails)" by code_simp
  have d: "\<forall>c\<in>set ?comps. \<not> startsWith c ''.''" by code_simp
  have x: "isRomExt (toLowerCase (extname (last ?comps)))" by code_simp
  have v: "\<lparr> name = basename (last ?comps) (toLowerCase (extname (last ?comps))),
             path = [''roms''] @ ?comps, zipEntry = None,
             ext = toLowerCase (extname (last ?comps)),
             system = systemName (toLowerCase (extname (last ?comps))) \<rparr> =
           \<lparr> name = ''deep'', path = [''roms'', ''d1'', ''d2'', ''d3'', ''deep.gb''], zipEntry = None,
         ext = ''.gb'', system = ''Game Boy'' \<rparr>" by code_simp
  from scan_depth_and_coverage [of ?tree "\<lambda>a b. 0" "[''roms'']" ?comps OpenFails] wn n l d x
  have "filter (\<lambda>r. path r = [''roms''] @ ?comps) (snd (scan (\<lambda>a b. 0) [''roms''] ?tree)) =
          [\<lparr> name = basename (last ?comps) (toLowerCase (extname (last ?comps))),
             path = [''roms''] @ ?comps, zipEntry = None,
             ext = toLowerCase (extname (last ?comps)),
             system = systemName (toLowerCase (extname (last ?comps))) \<rparr>]"
    by simp
  with v wn n run l show ?thesis by simp
qed

text \<open>A hidden file with a recognized extension, directly in the root, gives no entry.\<close>

theorem hidden_rom_file_not_cataloged:
  "isRomExt (toLowerCase (extname ''.hidden.nes'')) \<and>
   scan (\<lambda>a b. 0) [''roms'']
     (Directory [(''.hidden.nes'', RegularFile OpenFails), (''mario.nes'', RegularFile OpenFails)])
   = (Normal, [\<lparr> name = ''mario'', path = [''roms'', ''mario.nes''], zipEntry = None,
                 ext = ''.nes'', system = ''NES'' \<rparr>])"
  by code_simp

lemma catalog_at_archive:
  assumes "wellNamed tree" and "listingsEnd tree"
    and "locate tree comps = Some (RegularFile (Listing ms))" and "comps \<noteq> []"
    and "length comps \<le> 4" and "\<forall>c\<in>set comps. \<not> startsWith c ''.''"
    and "toLowerCase (extname (last comps)) = ''.zip''"
  shows "mset (filter (\<lambda>r. path r = romsDir @ comps) (snd (scan localeCompare romsDir tree))) =
         mset (snd (scanZip (romsDir @ comps) (Listing ms)))"
proof -
  from assms(2) scan_returns(1) [of tree romsDir 0]
  have n: "fst (scanDir romsDir tree 0) = Normal" by simp
  from assms(5) have len': "length comps + 0 \<le> 4" by simp
  have "mset (filter (\<lambda>r. path r = romsDir @ comps) (snd (scan localeCompare romsDir tree))) =
        filter_mset (\<lambda>r. path r = romsDir @ comps) (mset (snd (scanDir romsDir tree 0)))"
    using n by (simp add: scan_def Let_def mset_sortByName)
  also have "\<dots> = mset (filter (\<lambda>r. path r = romsDir @ comps) (snd (scanDir romsDir tree 0)))"
    by simp
  also have "\<dots> = mset (snd (scanZip (romsDir @ comps) (Listing ms)))"
    by (simp only: archive_found [OF assms(1) n assms(3) assms(4) len' assms(6) assms(7)])
  finally show ?thesis .
qed

lemma catalog_at_file:
  assumes "wellNamed tree" and "listingsEnd tree"
    and "locate tree comps = Some (RegularFile a)" and "comps \<noteq> []"
    and "length comps \<le> 4" and "\<forall>c\<in>set comps. \<not> startsWith c ''.''"
    and "isRomExt (toLowerCase (extname (last comps)))"
  shows "filter (\<lambda>r. path r = romsDir @ comps) (snd (scan localeCompare romsDir tree)) =
          [\<lparr> name = basename (last comps) (toLowerCase (extname (last comps))),
             path = romsDir @ comps, zipEntry = None,
             ext = toLowerCase (extname (last comps)),
             system = systemName (toLowerCase (extname (last comps))) \<rparr>]"
proof -
  from assms(2) scan_returns(1) [of tree romsDir 0]
  have n: "fst (scanDir romsDir tree 0) = Normal" by simp
  from assms(5) have len': "length comps + 0 \<le> 4" by simp
  from file_found [OF assms(1) n assms(3) assms(4) len' assms(6) assms(7)] n show ?thesis
    by (simp add: scan_def Let_def filter_sortByName_single)
qed

lemma fields_of_members:
  "map (\<lambda>r. (zipEntry r, ext r, system r)) (concat (map (onEntry zp zn) ms)) =
   map (\<lambda>f. (Some f, toLowerCase (extname f), systemName (toLowerCase (extname f))))
     (filter (\<lambda>f. isRomExt (toLowerCase (extname f)) \<and> \<not> startsWith f ''__MACOSX'') ms)"
  by (induction ms) (simp_all add: onEntry_cases)

lemma member_of_entry:
  assumes "r \<in> set (snd (scanZip zp (Listing ms)))"
  shows "\<exists>f\<in>set ms. isRomExt (toLowerCase (extname f)) \<and> \<not> startsWith f ''__MACOSX'' \<and>
           r = \<lparr> name = (if isDigits (basename f (toLowerCase (extname f))) \<or>
                             length (basename f (toLowerCase (extname f))) < 3
                          then basename (last zp) (extname (last zp))
                          else basename f (toLowerCase (extname f))),
                  path = zp, zipEntry = Some f, ext = toLowerCase (extname f),
                  system = systemName (toLowerCase (extname f)) \<rparr>"
proof -
  from assms obtain f where f: "f \<in> set ms"
    and r: "r \<in> set (onEntry zp (basename (last zp) (extname (last zp))) f)"
    by (auto simp: scanZip_Listing)
  from r show ?thesis
    by (intro bexI [OF _ f]) (simp add: onEntry_cases split: if_splits)
qed

text \<open>
  C4, as amended. An archive lies at most three directories below the root, under no
  hidden name, in a tree that lists each name once and has no archive that fails while
  it is listed. Then the entries of the catalog at the archive's path are, one for one,
  the members whose lowercased extension is recognized and whose inner name does not
  start with \<open>__MACOSX\<close>: each has the inner name as its archive member, the
  lowercased extension, and the system of the table. The entry of a member whose
  extension is written in lowercase is named by the member's base name, or by the base
  name of the archive's file if the member's is all digits or shorter than three
  characters.
\<close>

theorem archive_member_entry:
  "wellNamed tree \<and> listingsEnd tree \<and> locate tree comps = Some (RegularFile (Listing ms)) \<and>
   comps \<noteq> [] \<and> length comps \<le> 4 \<and> (\<forall>c\<in>set comps. \<not> startsWith c ''.'') \<and>
   toLowerCase (extname (last comps)) = ''.zip'' \<Longrightarrow>
     fst (scan localeCompare romsDir tree) = Normal \<and>
     mset (map (\<lambda>r. (zipEntry r, ext r, system r))
       (filter (\<lambda>r. path r = romsDir @ comps) (snd (scan localeCompare romsDir tree)))) =
     mset (map (\<lambda>f. (Some f, toLowerCase (extname f), systemName (toLowerCase (extname f))))
       (filter (\<lambda>f. isRomExt (toLowerCase (extname f)) \<and> \<not> startsWith f ''__MACOSX'') ms)) \<and>
     (\<forall>r\<in>set (snd (scan localeCompare romsDir tree)). path r = romsDir @ comps \<longrightarrow>
        (\<exists>f\<in>set ms. zipEntry r = Some f \<and>
           (extname f = toLowerCase (extname f) \<longrightarrow>
              name r = (if isDigits (basename f (extname f)) \<or> length (basename f (extname f)) < 3
                        then basename (last comps) (extname (last comps))
                        else basename f (extname f)))))"
proof -
  assume a: "wellNamed tree \<and> listingsEnd tree \<and>
   locate tree comps = Some (RegularFile (Listing ms)) \<and>
   comps \<noteq> [] \<and> length comps \<le> 4 \<and> (\<forall>c\<in>set comps. \<not> startsWith c ''.'') \<and>
   toLowerCase (extname (last comps)) = ''.zip''"
  then have wn: "wellNamed tree" and le: "listingsEnd tree"
    and l: "locate tree comps = Some (RegularFile (Listing ms))" and ne: "comps \<noteq> []"
    and len: "length comps \<le> 4" and nd: "\<forall>c\<in>set comps. \<not> startsWith c ''.''"
    and z: "toLowerCase (extname (last comps)) = ''.zip''" by simp_all
  let ?zp = "romsDir @ comps"
  let ?at = "filter (\<lambda>r. path r = ?zp) (snd (scan localeCompare romsDir tree))"
  note cat = catalog_at_archive [OF wn le l ne len nd z, of romsDir localeCompare]
  from le scan_returns(1) [of tree romsDir 0]
  have ret: "fst (scan localeCompare romsDir tree) = Normal" by (simp add: fst_scan)
  have "mset (map (\<lambda>r. (zipEntry r, ext r, system r)) ?at) =
        image_mset (\<lambda>r. (zipEntry r, ext r, system r)) (mset ?at)" by simp
  also have "\<dots> = image_mset (\<lambda>r. (zipEntry r, ext r, system r))
        (mset (snd (scanZip ?zp (Listing ms))))" by (simp only: cat)
  also have "\<dots> = mset (map (\<lambda>r. (zipEntry r, ext r, system r)) (snd (scanZip ?zp (Listing ms))))"
    by simp
  finally have fields: "mset (map (\<lambda>r. (zipEntry r, ext r, system r)) ?at) =
     mset (map (\<lambda>f. (Some f, toLowerCase (extname f), systemName (toLowerCase (extname f))))
       (filter (\<lambda>f. isRomExt (toLowerCase (extname f)) \<and> \<not> startsWith f ''__MACOSX'') ms))"
    by (simp only: scanZip_Listing snd_conv fields_of_members)
  have names: "\<exists>f\<in>set ms. zipEntry r = Some f \<and>
           (extname f = toLowerCase (extname f) \<longrightarrow>
              name r = (if isDigits (basename f (extname f)) \<or> length (basename f (extname f)) < 3
                        then basename (last comps) (extname (last comps))
                        else basename f (extname f)))"
    if r: "r \<in> set (snd (scan localeCompare romsDir tree))" and p: "path r = ?zp" for r
  proof -
    from r p have "r \<in># mset ?at" by simp
    with cat have "r \<in> set (snd (scanZip ?zp (Listing ms)))" by simp
    from member_of_entry [OF this] obtain f where f: "f \<in> set ms"
      and eq: "r = \<lparr> name = (if isDigits (basename f (toLowerCase (extname f))) \<or>
                             length (basename f (toLowerCase (extname f))) < 3
                          then basename (last ?zp) (extname (last ?zp))
                          else basename f (toLowerCase (extname f))),
                  path = ?zp, zipEntry = Some f, ext = toLowerCase (extname f),
                  system = systemName (toLowerCase (extname f)) \<rparr>" by blast
    from ne have "last ?zp = last comps" by simp
    with eq have "zipEntry r = Some f \<and>
           (extname f = toLowerCase (extname f) \<longrightarrow>
              name r = (if isDigits (basename f (extname f)) \<or> length (basename f (extname f)) < 3
                        then basename (last comps) (extname (last comps))
                        else basename f (extname f)))" by simp
    with f show ?thesis by blast
  qed
  from ret fields names show ?thesis by blast
qed

theorem archive_member_entry_witness:
  "wellNamed (Directory [(''games.zip'', RegularFile (Listing [''1.nes'', ''2.nes'']))]) \<and>
   listingsEnd (Directory [(''games.zip'', RegularFile (Listing [''1.nes'', ''2.nes'']))]) \<and>
   locate (Directory [(''games.zip'', RegularFile (Listing [''1.nes'', ''2.nes'']))])
     [''games.zip''] = Some (RegularFile (Listing [''1.nes'', ''2.nes''])) \<and>
   toLowerCase (extname (last [''games.zip''])) = ''.zip'' \<and>
   scan (\<lambda>a b. 0) [''roms'']
     (Directory [(''games.zip'', RegularFile (Listing [''1.nes'', ''2.nes'']))])
   = (Normal,
      [\<lparr> name = ''games'', path = [''roms'', ''games.zip''], zipEntry = Some ''1.nes'',
         ext = ''.nes'', system = ''NES'' \<rparr>,
       \<lparr> name = ''games'', path = [''roms'', ''games.zip''], zipEntry = Some ''2.nes'',
         ext = ''.nes'', system = ''NES'' \<rparr>]) \<and>
   mset (map (\<lambda>r. (zipEntry r, ext r, system r))
     (filter (\<lambda>r. path r = [''roms''] @ [''games.zip''])
       (snd (scan (\<lambda>a b. 0) [''roms'']
         (Directory [(''games.zip'', RegularFile (Listing [''1.nes'', ''2.nes'']))]))))) =
   mset [(Some ''1.nes'', ''.nes'', ''NES''), (Some ''2.nes'', ''.nes'', ''NES'')] \<and>
   (\<exists>f\<in>set [''1.nes'', ''2.nes'']. Some ''2.nes'' = Some f \<and> ''games'' =
      (if isDigits (basename f (extname f)) \<or> length (basename f (extname f)) < 3
       then basename (last [''games.zip'']) (extname (last [''games.zip'']))
       else basename f (extname f)))"
proof -
  let ?tree = "Directory [(''games.zip'', RegularFile (Listing [''1.nes'', ''2.nes'']))]"
  let ?r2 = "\<lparr> name = ''games'', path = [''roms'', ''games.zip''], zipEntry = Some ''2.nes'',
         ext = ''.nes'', system = ''NES'' \<rparr>"
  have t: "wellNamed ?tree \<and> listingsEnd ?tree \<and>
      locate ?tree [''games.zip''] = Some (RegularFile (Listing [''1.nes'', ''2.nes''])) \<and>
      [''games.zip''] \<noteq> [] \<and> length [''games.zip''] \<le> 4 \<and>
      (\<forall>c\<in>set [''games.zip'']. \<not> startsWith c ''.'') \<and>
      toLowerCase (extname (last [''games.zip''])) = ''.zip''" by code_simp
  have run: "scan (\<lambda>a b. 0) [''roms''] ?tree
   = (Normal,
      [\<lparr> name = ''games'', path = [''roms'', ''games.zip''], zipEntry = Some ''1.nes'',
         ext = ''.nes'', system = ''NES'' \<rparr>, ?r2])" by code_simp
  have v: "map (\<lambda>f. (Some f, toLowerCase (extname f), systemName (toLowerCase (extname f))))
       (filter (\<lambda>f. isRomExt (toLowerCase (extname f)) \<and> \<not> startsWith f ''__MACOSX'')
          [''1.nes'', ''2.nes'']) =
       [(Some ''1.nes'', ''.nes'', ''NES''), (Some ''2.nes'', ''.nes'', ''NES'')]" by code_simp
  have lo: "\<forall>f\<in>set [''1.nes'', ''2.nes'']. extname f = toLowerCase (extname f)" by code_simp
  note inst = archive_member_entry [OF t, of "\<lambda>a b. 0" "[''roms'']"]
  note inst_fields = inst [THEN conjunct2, THEN conjunct1]
  note inst_names = inst [THEN conjunct2, THEN conjunct2]
  have fields: "mset (map (\<lambda>r. (zipEntry r, ext r, system r))
     (filter (\<lambda>r. path r = [''roms''] @ [''games.zip''])
       (snd (scan (\<lambda>a b. 0) [''roms''] ?tree)))) =
   mset [(Some ''1.nes'', ''.nes'', ''NES''), (Some ''2.nes'', ''.nes'', ''NES'')]"
    using inst_fields by (simp only: v)
  have m: "?r2 \<in> set (snd (scan (\<lambda>a b. 0) [''roms''] ?tree))"
    by (simp only: run snd_conv) simp
  have p: "path ?r2 = [''roms''] @ [''games.zip'']" by simp
  from inst_names m p obtain f where f: "f \<in> set [''1.nes'', ''2.nes'']"
    and z: "zipEntry ?r2 = Some f"
    and n: "extname f = toLowerCase (extname f) \<longrightarrow>
              name ?r2 = (if isDigits (basename f (extname f)) \<or> length (basename f (extname f)) < 3
                        then basename (last [''games.zip'']) (extname (last [''games.zip'']))
                        else basename f (extname f))" by blast
  from lo f have "extname f = toLowerCase (extname f)" by blast
  with n z have "Some ''2.nes'' = Some f \<and> ''games'' =
      (if isDigits (basename f (extname f)) \<or> length (basename f (extname f)) < 3
       then basename (last [''games.zip'']) (extname (last [''games.zip'']))
       else basename f (extname f))" by simp
  with f have ex: "\<exists>f\<in>set [''1.nes'', ''2.nes'']. Some ''2.nes'' = Some f \<and> ''games'' =
      (if isDigits (basename f (extname f)) \<or> length (basename f (extname f)) < 3
       then basename (last [''games.zip'']) (extname (last [''games.zip'']))
       else basename f (extname f))" by blast
  from t run fields ex show ?thesis by blast
qed

text \<open>A member under \<open>__MACOSX\<close> has a recognized extension and gives no entry.\<close>

theorem macosx_member_not_cataloged:
  "isRomExt (toLowerCase (extname ''__MACOSX/game.nes'')) \<and>
   scan (\<lambda>a b. 0) [''roms'']
     (Directory [(''m.zip'', RegularFile (Listing [''__MACOSX/game.nes'']))]) = (Normal, [])"
  by code_simp

lemma catalog_has_member:
  assumes "wellNamed tree" and "listingsEnd tree"
    and "locate tree comps = Some (RegularFile (Listing ms))" and "comps \<noteq> []"
    and "length comps \<le> 4" and "\<forall>c\<in>set comps. \<not> startsWith c ''.''"
    and "toLowerCase (extname (last comps)) = ''.zip''"
    and "x \<in> set ms" and "isRomExt (toLowerCase (extname x))"
    and "\<not> startsWith x ''__MACOSX''"
  shows "\<exists>r\<in>set (snd (scan localeCompare romsDir tree)).
           path r = romsDir @ comps \<and> zipEntry r = Some x \<and>
           ext r = toLowerCase (extname x) \<and> system r = systemName (toLowerCase (extname x))"
proof -
  let ?zp = "romsDir @ comps"
  let ?zn = "basename (last ?zp) (extname (last ?zp))"
  from assms(9,10) obtain r where r: "onEntry ?zp ?zn x = [r]"
    and f: "path r = ?zp" "zipEntry r = Some x" "ext r = toLowerCase (extname x)"
      "system r = systemName (toLowerCase (extname x))"
    by (simp add: onEntry_cases)
  from r assms(8) have "r \<in> set (snd (scanZip ?zp (Listing ms)))"
    by (auto simp: scanZip_Listing intro!: bexI [of _ x])
  then have "r \<in># mset (snd (scanZip ?zp (Listing ms)))" by simp
  with catalog_at_archive [OF assms(1-7), of romsDir localeCompare]
  have "r \<in># mset (filter (\<lambda>r. path r = ?zp) (snd (scan localeCompare romsDir tree)))"
    by simp
  then have "r \<in> set (snd (scan localeCompare romsDir tree))" by simp
  with f show ?thesis by blast
qed

text \<open>
  C9. A name whose lowercased extension is recognized, in whatever case the extension is
  written, gives an entry with the lowercased extension and the system the table has
  for it: as a file of a directory, as a member of an archive, and in the catalog of a
  scan that reaches it. Two names whose extensions differ only in case give entries
  with the same extension and system fields.
\<close>

theorem ext_case_insensitive:
  "isRomExt (toLowerCase (extname x)) \<Longrightarrow>
     scanFile x p child =
       (Normal, [\<lparr> name = basename x (toLowerCase (extname x)), path = p, zipEntry = None,
                   ext = toLowerCase (extname x),
                   system = systemName (toLowerCase (extname x)) \<rparr>]) \<and>
     (\<not> startsWith x ''__MACOSX'' \<longrightarrow>
        map (\<lambda>r. (path r, zipEntry r, ext r, system r)) (onEntry zp zn x) =
          [(zp, Some x, toLowerCase (extname x), systemName (toLowerCase (extname x)))]) \<and>
     (toLowerCase (extname y) = toLowerCase (extname x) \<longrightarrow>
        map (\<lambda>r. (ext r, system r)) (snd (scanFile y q child')) =
        map (\<lambda>r. (ext r, system r)) (snd (scanFile x p child)) \<and>
        (startsWith y ''__MACOSX'' = startsWith x ''__MACOSX'' \<longrightarrow>
           map (\<lambda>r. (ext r, system r)) (onEntry zp' zn' y) =
           map (\<lambda>r. (ext r, system r)) (onEntry zp zn x))) \<and>
     (wellNamed tree \<and> listingsEnd tree \<and> comps \<noteq> [] \<and> length comps \<le> 4 \<and>
      (\<forall>c\<in>set comps. \<not> startsWith c ''.'') \<longrightarrow>
        (locate tree comps = Some (RegularFile a) \<and> last comps = x \<longrightarrow>
           map (\<lambda>r. (zipEntry r, ext r, system r))
             (filter (\<lambda>r. path r = romsDir @ comps) (snd (scan localeCompare romsDir tree))) =
           [(None, toLowerCase (extname x), systemName (toLowerCase (extname x)))]) \<and>
        (locate tree comps = Some (RegularFile (Listing ms)) \<and>
         toLowerCase (extname (last comps)) = ''.zip'' \<and> x \<in> set ms \<and>
         \<not> startsWith x ''__MACOSX'' \<longrightarrow>
           (\<exists>r\<in>set (snd (scan localeCompare romsDir tree)).
              path r = romsDir @ comps \<and> zipEntry r = Some x \<and>
              ext r = toLowerCase (extname x) \<and>
              system r = systemName (toLowerCase (extname x)))))"
proof -
  assume rom: "isRomExt (toLowerCase (extname x))"
  have asFile: "scanFile x p child =
       (Normal, [\<lparr> name = basename x (toLowerCase (extname x)), path = p, zipEntry = None,
                   ext = toLowerCase (extname x),
                   system = systemName (toLowerCase (extname x)) \<rparr>])"
    by (rule scanFile_rom [OF rom])
  have member: "\<not> startsWith x ''__MACOSX'' \<longrightarrow>
        map (\<lambda>r. (path r, zipEntry r, ext r, system r)) (onEntry zp zn x) =
          [(zp, Some x, toLowerCase (extname x), systemName (toLowerCase (extname x)))]"
    using rom by (simp add: onEntry_cases)
  have same: "map (\<lambda>r. (ext r, system r)) (snd (scanFile y q child')) =
        map (\<lambda>r. (ext r, system r)) (snd (scanFile x p child)) \<and>
        (startsWith y ''__MACOSX'' = startsWith x ''__MACOSX'' \<longrightarrow>
           map (\<lambda>r. (ext r, system r)) (onEntry zp' zn' y) =
           map (\<lambda>r. (ext r, system r)) (onEntry zp zn x))"
    if e: "toLowerCase (extname y) = toLowerCase (extname x)"
  proof -
    from rom e have "isRomExt (toLowerCase (extname y))" by simp
    from scanFile_rom [OF this, of q child'] asFile e show ?thesis
      by (simp add: extsys_onEntry)
  qed
  have catFile: "map (\<lambda>r. (zipEntry r, ext r, system r))
             (filter (\<lambda>r. path r = romsDir @ comps) (snd (scan localeCompare romsDir tree))) =
           [(None, toLowerCase (extname x), systemName (toLowerCase (extname x)))]"
    if "wellNamed tree" "listingsEnd tree" "comps \<noteq> []" "length comps \<le> 4"
      "\<forall>c\<in>set comps. \<not> startsWith c ''.''" "locate tree comps = Some (RegularFile a)"
      "last comps = x"
  proof -
    from rom that(7) have "isRomExt (toLowerCase (extname (last comps)))" by simp
    from catalog_at_file [OF that(1,2,6,3,4,5) this, of romsDir localeCompare] that(7)
    show ?thesis by simp
  qed
  have catMember: "\<exists>r\<in>set (snd (scan localeCompare romsDir tree)).
              path r = romsDir @ comps \<and> zipEntry r = Some x \<and>
              ext r = toLowerCase (extname x) \<and>
              system r = systemName (toLowerCase (extname x))"
    if "wellNamed tree" "listingsEnd tree" "comps \<noteq> []" "length comps \<le> 4"
      "\<forall>c\<in>set comps. \<not> startsWith c ''.''"
      "locate tree comps = Some (RegularFile (Listing ms))"
      "toLowerCase (extname (last comps)) = ''.zip''" "x \<in> set ms"
      "\<not> startsWith x ''__MACOSX''"
    by (rule catalog_has_member [OF that(1,2,6,3,4,5,7,8) rom that(9)])
  from asFile member same catFile catMember show ?thesis by blast
qed

theorem ext_case_insensitive_witness:
  "isRomExt (toLowerCase (extname ''MARIO.NES'')) \<and>
   toLowerCase (extname ''mario.nes'') = toLowerCase (extname ''MARIO.NES'') \<and>
   scanFile ''MARIO.NES'' [''roms'', ''MARIO.NES''] (RegularFile OpenFails) =
     (Normal, [\<lparr> name = ''MARIO.NES'', path = [''roms'', ''MARIO.NES''], zipEntry = None,
                 ext = ''.nes'', system = ''NES'' \<rparr>]) \<and>
   map (\<lambda>r. (ext r, system r))
     (snd (scanFile ''mario.nes'' [''roms'', ''mario.nes''] (RegularFile OpenFails)))
     = [(''.nes'', ''NES'')] \<and>
   map (\<lambda>r. (path r, zipEntry r, ext r, system r))
     (onEntry [''roms'', ''a.zip''] ''a'' ''MARIO.NES'') =
     [([''roms'', ''a.zip''], Some ''MARIO.NES'', ''.nes'', ''NES'')] \<and>
   map (\<lambda>r. (zipEntry r, ext r, system r))
     (filter (\<lambda>r. path r = [''roms''] @ [''MARIO.NES''])
        (snd (scan (\<lambda>a b. 0) [''roms'']
           (Directory [(''MARIO.NES'', RegularFile OpenFails),
                       (''a.zip'', RegularFile (Listing [''MARIO.NES'', ''mario.nes'']))])))) =
     [(None, ''.nes'', ''NES'')] \<and>
   (\<exists>r\<in>set (snd (scan (\<lambda>a b. 0) [''roms'']
           (Directory [(''MARIO.NES'', RegularFile OpenFails),
                       (''a.zip'', RegularFile (Listing [''MARIO.NES'', ''mario.nes'']))]))).
      path r = [''roms''] @ [''a.zip''] \<and> zipEntry r = Some ''MARIO.NES'' \<and>
      ext r = ''.nes'' \<and> system r = ''NES'') \<and>
   scan (\<lambda>a b. 0) [''roms'']
     (Directory [(''MARIO.NES'', RegularFile OpenFails),
                 (''a.zip'', RegularFile (Listing [''MARIO.NES'', ''mario.nes'']))]) =
     (Normal,
      [\<lparr> name = ''MARIO.NES'', path = [''roms'', ''MARIO.NES''], zipEntry = None,
         ext = ''.nes'', system = ''NES'' \<rparr>,
       \<lparr> name = ''MARIO.NES'', path = [''roms'', ''a.zip''], zipEntry = Some ''MARIO.NES'',
         ext = ''.nes'', system = ''NES'' \<rparr>,
       \<lparr> name = ''mario'', path = [''roms'', ''a.zip''], zipEntry = Some ''mario.nes'',
         ext = ''.nes'', system = ''NES'' \<rparr>])"
proof -
  let ?tree = "Directory [(''MARIO.NES'', RegularFile OpenFails),
                 (''a.zip'', RegularFile (Listing [''MARIO.NES'', ''mario.nes'']))]"
  have h: "isRomExt (toLowerCase (extname ''MARIO.NES''))" by code_simp
  have e: "toLowerCase (extname ''MARIO.NES'') = ''.nes''" by code_simp
  have e': "toLowerCase (extname ''mario.nes'') = toLowerCase (extname ''MARIO.NES'')"
    by code_simp
  have s: "systemName ''.nes'' = ''NES''" by code_simp
  have b: "basename ''MARIO.NES'' ''.nes'' = ''MARIO.NES''" by code_simp
  have m: "\<not> startsWith ''MARIO.NES'' ''__MACOSX''" by code_simp
  have t: "wellNamed ?tree \<and> listingsEnd ?tree \<and> [''MARIO.NES''] \<noteq> [] \<and>
      length [''MARIO.NES''] \<le> 4 \<and> (\<forall>c\<in>set [''MARIO.NES'']. \<not> startsWith c ''.'')"
    by code_simp
  have t': "wellNamed ?tree \<and> listingsEnd ?tree \<and> [''a.zip''] \<noteq> [] \<and>
      length [''a.zip''] \<le> 4 \<and> (\<forall>c\<in>set [''a.zip'']. \<not> startsWith c ''.'')"
    by code_simp
  have lf: "locate ?tree [''MARIO.NES''] = Some (RegularFile OpenFails) \<and>
      last [''MARIO.NES''] = ''MARIO.NES''" by code_simp
  have lz: "locate ?tree [''a.zip''] = Some (RegularFile (Listing [''MARIO.NES'', ''mario.nes''])) \<and>
      toLowerCase (extname (last [''a.zip''])) = ''.zip'' \<and>
      ''MARIO.NES'' \<in> set [''MARIO.NES'', ''mario.nes'']" by code_simp
  have run: "scan (\<lambda>a b. 0) [''roms''] ?tree =
     (Normal,
      [\<lparr> name = ''MARIO.NES'', path = [''roms'', ''MARIO.NES''], zipEntry = None,
         ext = ''.nes'', system = ''NES'' \<rparr>,
       \<lparr> name = ''MARIO.NES'', path = [''roms'', ''a.zip''], zipEntry = Some ''MARIO.NES'',
         ext = ''.nes'', system = ''NES'' \<rparr>,
       \<lparr> name = ''mario'', path = [''roms'', ''a.zip''], zipEntry = Some ''mario.nes'',
         ext = ''.nes'', system = ''NES'' \<rparr>])" by code_simp
  note i1 = ext_case_insensitive [OF h, of "[''roms'', ''MARIO.NES'']" "RegularFile OpenFails"
      "[''roms'', ''a.zip'']" "''a''" "''mario.nes''" "[''roms'', ''mario.nes'']"
      "RegularFile OpenFails" "[''roms'', ''a.zip'']" "''a''" ?tree "[''MARIO.NES'']"
      OpenFails "[''roms'']" "\<lambda>a b. 0"]
  note i2 = ext_case_insensitive [OF h, of "[''roms'', ''MARIO.NES'']" "RegularFile OpenFails"
      "[''roms'', ''a.zip'']" "''a''" "''mario.nes''" "[''roms'', ''mario.nes'']"
      "RegularFile OpenFails" "[''roms'', ''a.zip'']" "''a''" ?tree "[''a.zip'']"
      OpenFails "[''roms'']" "\<lambda>a b. 0" "[''MARIO.NES'', ''mario.nes'']"]
  from i1 have "scanFile ''MARIO.NES'' [''roms'', ''MARIO.NES''] (RegularFile OpenFails) =
     (Normal, [\<lparr> name = basename ''MARIO.NES'' (toLowerCase (extname ''MARIO.NES'')),
                 path = [''roms'', ''MARIO.NES''], zipEntry = None,
                 ext = toLowerCase (extname ''MARIO.NES''),
                 system = systemName (toLowerCase (extname ''MARIO.NES'')) \<rparr>])"
    by blast
  then have c1: "scanFile ''MARIO.NES'' [''roms'', ''MARIO.NES''] (RegularFile OpenFails) =
     (Normal, [\<lparr> name = ''MARIO.NES'', path = [''roms'', ''MARIO.NES''], zipEntry = None,
                 ext = ''.nes'', system = ''NES'' \<rparr>])"
    by (simp only: e s b)
  from i1 m have "map (\<lambda>r. (path r, zipEntry r, ext r, system r))
     (onEntry [''roms'', ''a.zip''] ''a'' ''MARIO.NES'') =
     [([''roms'', ''a.zip''], Some ''MARIO.NES'', toLowerCase (extname ''MARIO.NES''),
       systemName (toLowerCase (extname ''MARIO.NES'')))]"
    by blast
  then have c2: "map (\<lambda>r. (path r, zipEntry r, ext r, system r))
     (onEntry [''roms'', ''a.zip''] ''a'' ''MARIO.NES'') =
     [([''roms'', ''a.zip''], Some ''MARIO.NES'', ''.nes'', ''NES'')]"
    by (simp only: e s)
  from i1 e' have "map (\<lambda>r. (ext r, system r))
     (snd (scanFile ''mario.nes'' [''roms'', ''mario.nes''] (RegularFile OpenFails))) =
     map (\<lambda>r. (ext r, system r))
     (snd (scanFile ''MARIO.NES'' [''roms'', ''MARIO.NES''] (RegularFile OpenFails)))"
    by blast
  then have c3: "map (\<lambda>r. (ext r, system r))
     (snd (scanFile ''mario.nes'' [''roms'', ''mario.nes''] (RegularFile OpenFails)))
     = [(''.nes'', ''NES'')]"
    by (simp add: c1)
  from i1 t lf have "map (\<lambda>r. (zipEntry r, ext r, system r))
     (filter (\<lambda>r. path r = [''roms''] @ [''MARIO.NES''])
        (snd (scan (\<lambda>a b. 0) [''roms''] ?tree))) =
     [(None, toLowerCase (extname ''MARIO.NES''),
       systemName (toLowerCase (extname ''MARIO.NES'')))]"
    by blast
  then have c4: "map (\<lambda>r. (zipEntry r, ext r, system r))
     (filter (\<lambda>r. path r = [''roms''] @ [''MARIO.NES''])
        (snd (scan (\<lambda>a b. 0) [''roms''] ?tree))) = [(None, ''.nes'', ''NES'')]"
    by (simp only: e s)
  from i2 t' lz m have "\<exists>r\<in>set (snd (scan (\<lambda>a b. 0) [''roms''] ?tree)).
      path r = [''roms''] @ [''a.zip''] \<and> zipEntry r = Some ''MARIO.NES'' \<and>
      ext r = toLowerCase (extname ''MARIO.NES'') \<and>
      system r = systemName (toLowerCase (extname ''MARIO.NES''))"
    by blast
  then have c5: "\<exists>r\<in>set (snd (scan (\<lambda>a b. 0) [''roms''] ?tree)).
      path r = [''roms''] @ [''a.zip''] \<and> zipEntry r = Some ''MARIO.NES'' \<and>
      ext r = ''.nes'' \<and> system r = ''NES''"
    by (simp only: e s)
  from h e' c1 c2 c3 c4 c5 run show ?thesis by blast
qed

end
